theory Spec2Isabelle
  imports Complex_Main "HOL-Library.Log_Nat" "HOL-Library.Multiset"
begin

section \<open>JavaScript numbers\<close>

text \<open>
  Balances and amounts are values of the JavaScript type \<^verbatim>\<open>number\<close>: the values of the
  IEEE 754 binary64 format. A finite value is a rational number; beside the finite values
  there are the two infinities and NaN. The provider adds and subtracts numbers and
  compares them with 0 (\<^verbatim>\<open>=== 0\<close>, \<^verbatim>\<open>!== 0\<close>); it never divides. No operation of the
  provider tells the negative zero from the positive one, so the two zeros are one value
  here. NaN is a value other than 0, as it is for the comparisons of the provider.
\<close>

datatype ieee = Finite rat | PosInfinity | NegInfinity | NaN

text \<open>
  The binary exponent of a rational \<open>x\<close> other than 0: the integer \<open>e\<close> with
  \<open>2 ^ e \<le> \<bar>x\<bar> < 2 ^ (e + 1)\<close>, computed from the bit lengths of numerator and
  denominator.
\<close>

definition exponentOf :: "rat \<Rightarrow> int" where
  "exponentOf x =
     (let (p, q) = quotient_of \<bar>x\<bar>; d = bitlen p - bitlen q
      in if 2 powi d \<le> \<bar>x\<bar> then d else d - 1)"

text \<open>The nearest integer, a tie going to the even one.\<close>

definition roundHalfEven :: "rat \<Rightarrow> int" where
  "roundHalfEven q =
     (let f = \<lfloor>q\<rfloor>; r = q - of_int f
      in if r < 1 / 2 then f else if 1 / 2 < r then f + 1 else if even f then f else f + 1)"

text \<open>
  Rounding to binary64, in the default mode \<^emph>\<open>round to nearest, ties to even\<close>: the
  significand has 53 bits, so a value of exponent \<open>e\<close> is rounded to a multiple of
  \<open>2 ^ (e - 52)\<close>, and to a multiple of \<open>2 ^ (- 1074)\<close> in the subnormal range; a result
  of magnitude \<open>2 ^ 1024\<close> or more is the infinity of its sign.
\<close>

definition roundDouble :: "rat \<Rightarrow> ieee" where
  "roundDouble x =
     (if x = 0 then Finite 0
      else let e = max (exponentOf x - 52) (- 1074);
               y = of_int (roundHalfEven (x / 2 powi e)) * 2 powi e
           in if 2 powi 1024 \<le> \<bar>y\<bar> then (if 0 < x then PosInfinity else NegInfinity)
              else Finite y)"

lemma two_powi_pos [simp]: "0 < (2::rat) powi e"
  by (simp add: power_int_def)

lemma two_powi_nat: "0 \<le> e \<Longrightarrow> (2::rat) powi e = of_int (2 ^ nat e)"
  by (simp add: power_int_def)

lemma bitlen_bounds_rat:
  assumes "0 < p"
  shows "(2::rat) powi (bitlen p - 1) \<le> of_int p" and "of_int p < (2::rat) powi bitlen p"
proof -
  from assms have b: "1 \<le> bitlen p"
    by (simp add: bitlen_alt_def)
  from bitlen_bounds [OF assms]
  have lo: "2 ^ nat (bitlen p - 1) \<le> p" and hi: "p < 2 ^ nat (bitlen p)" by simp_all
  show "(2::rat) powi (bitlen p - 1) \<le> of_int p"
    using lo b by (simp add: two_powi_nat)
  show "of_int p < (2::rat) powi bitlen p"
    using hi b by (simp add: two_powi_nat)
qed

lemma exponentOf_bounds:
  assumes "x \<noteq> 0"
  shows "2 powi exponentOf x \<le> \<bar>x\<bar>" and "\<bar>x\<bar> < 2 powi (exponentOf x + 1)"
proof -
  obtain p q where pq: "quotient_of \<bar>x\<bar> = (p, q)" by (cases "quotient_of \<bar>x\<bar>")
  then have q: "0 < q" by (rule quotient_of_denom_pos)
  have x: "\<bar>x\<bar> = of_int p / of_int q"
    using pq by (rule quotient_of_div)
  have "0 < \<bar>x\<bar>" using assms by simp
  then have p: "0 < p"
    unfolding x using q by (simp add: zero_less_divide_iff)
  let ?d = "bitlen p - bitlen q"
  have e: "exponentOf x = (if 2 powi ?d \<le> \<bar>x\<bar> then ?d else ?d - 1)"
    by (simp add: exponentOf_def pq)
  have qpos: "(0::rat) < of_int q" using q by simp
  have lo: "2 powi (?d - 1) \<le> \<bar>x\<bar>"
  proof -
    have "(2::rat) powi (?d - 1) * of_int q \<le> 2 powi (?d - 1) * 2 powi bitlen q"
      using bitlen_bounds_rat(2) [OF q] by (simp add: less_imp_le)
    also have "\<dots> = 2 powi (bitlen p - 1)"
      by (simp flip: power_int_add)
    also have "\<dots> \<le> of_int p"
      using p by (rule bitlen_bounds_rat)
    finally show ?thesis
      unfolding x using qpos by (simp add: pos_le_divide_eq)
  qed
  have hi: "\<bar>x\<bar> < 2 powi (?d + 1)"
  proof -
    have "of_int p < (2::rat) powi bitlen p"
      using p by (rule bitlen_bounds_rat)
    also have "\<dots> = 2 powi (?d + 1) * 2 powi (bitlen q - 1)"
      by (simp flip: power_int_add)
    also have "\<dots> \<le> 2 powi (?d + 1) * of_int q"
      using bitlen_bounds_rat(1) [OF q] by simp
    finally show ?thesis
      unfolding x using qpos by (simp add: pos_divide_less_eq)
  qed
  show "2 powi exponentOf x \<le> \<bar>x\<bar>"
    using lo by (simp add: e)
  show "\<bar>x\<bar> < 2 powi (exponentOf x + 1)"
    using hi by (auto simp: e not_le)
qed

lemma roundHalfEven_of_int [simp]: "roundHalfEven (of_int n) = n"
  by (simp add: roundHalfEven_def)

lemma roundHalfEven_le: "q \<le> of_int N \<Longrightarrow> roundHalfEven q \<le> N"
proof -
  assume a: "q \<le> of_int N"
  then have f: "\<lfloor>q\<rfloor> \<le> N" by (simp add: floor_le_iff)
  show ?thesis
  proof (cases "\<lfloor>q\<rfloor> = N")
    case True
    then have "q - of_int \<lfloor>q\<rfloor> \<le> 0" using a by simp
    then show ?thesis using True by (simp add: roundHalfEven_def Let_def)
  next
    case False
    with f have "\<lfloor>q\<rfloor> + 1 \<le> N" by simp
    then show ?thesis using f by (simp add: roundHalfEven_def Let_def)
  qed
qed

lemma roundHalfEven_ge: "of_int N \<le> q \<Longrightarrow> N \<le> roundHalfEven q"
proof -
  assume "of_int N \<le> q"
  then have "N \<le> \<lfloor>q\<rfloor>" by (simp add: le_floor_iff)
  then show ?thesis by (simp add: roundHalfEven_def Let_def)
qed

text \<open>The values of the format: the special values and the rationals that rounding fixes.\<close>

definition isDouble :: "ieee \<Rightarrow> bool" where
  "isDouble v \<longleftrightarrow> (case v of Finite r \<Rightarrow> roundDouble r = Finite r | _ \<Rightarrow> True)"

lemma roundDouble_zero [simp]: "roundDouble 0 = Finite 0"
  by (simp add: roundDouble_def)

lemma mantissa_bound:
  assumes "x \<noteq> 0"
  shows "\<bar>roundHalfEven (x / 2 powi max (exponentOf x - 52) (- 1074))\<bar> \<le> 2 ^ 53"
proof -
  let ?e = "max (exponentOf x - 52) (- 1074)"
  have "\<bar>x\<bar> < 2 powi (exponentOf x + 1)"
    using assms by (rule exponentOf_bounds)
  also have "\<dots> = 2 powi (exponentOf x - 52) * 2 ^ 53"
    by (simp add: power_int_add power_int_diff)
  also have "\<dots> \<le> 2 powi ?e * 2 ^ 53"
    by (simp add: power_int_increasing)
  finally have "\<bar>x\<bar> / 2 powi ?e \<le> 2 ^ 53"
    by (simp add: pos_divide_le_eq mult.commute less_imp_le)
  moreover have "\<bar>x / 2 powi ?e\<bar> = \<bar>x\<bar> / 2 powi ?e"
    by (simp add: abs_divide)
  ultimately have "\<bar>x / 2 powi ?e\<bar> \<le> 2 ^ 53"
    by simp
  then have "x / 2 powi ?e \<le> 2 ^ 53" and "- (2 ^ 53) \<le> x / 2 powi ?e"
    by linarith+
  then have hi: "x / 2 powi ?e \<le> of_int (2 ^ 53)"
    and lo: "of_int (- (2 ^ 53)) \<le> x / 2 powi ?e"
    by simp_all
  from hi have "roundHalfEven (x / 2 powi ?e) \<le> 2 ^ 53"
    by (rule roundHalfEven_le)
  moreover from lo have "- (2 ^ 53) \<le> roundHalfEven (x / 2 powi ?e)"
    by (rule roundHalfEven_ge)
  ultimately show ?thesis by (simp add: abs_le_iff)
qed

lemma grid_fixed:
  assumes n: "\<bar>n\<bar> \<le> 2 ^ 53" and e: "- 1074 \<le> e"
    and y: "\<bar>of_int n * 2 powi e\<bar> < (2::rat) powi 1024"
  shows "roundDouble (of_int n * 2 powi e) = Finite (of_int n * 2 powi e)"
proof (cases "n = 0")
  case True
  then show ?thesis by simp
next
  case False
  let ?y = "of_int n * (2::rat) powi e"
  have y0: "?y \<noteq> 0" using False by simp
  let ?E = "exponentOf ?y"
  let ?e' = "max (?E - 52) (- 1074)"
  have "\<exists>k::int. ?y / 2 powi ?e' = of_int k"
  proof (cases "?e' \<le> e")
    case True
    have "?y / 2 powi ?e' = of_int n * 2 powi (e - ?e')"
      by (simp add: power_int_diff)
    also have "\<dots> = of_int (n * 2 ^ nat (e - ?e'))"
      using True by (simp add: two_powi_nat)
    finally show ?thesis by blast
  next
    case gt: False
    then have e': "?e' = ?E - 52" and big: "e + 53 \<le> ?E"
      using e by (auto simp: max_def split: if_splits)
    have "2 powi ?E \<le> \<bar>?y\<bar>"
      using y0 by (rule exponentOf_bounds)
    also have "\<bar>?y\<bar> = of_int \<bar>n\<bar> * 2 powi e"
      by (simp add: abs_mult)
    finally have lo: "(2::rat) powi ?E \<le> of_int \<bar>n\<bar> * 2 powi e" .
    also have "\<dots> \<le> 2 ^ 53 * 2 powi e"
    proof -
      have "(of_int \<bar>n\<bar> :: rat) \<le> of_int (2 ^ 53)"
        using n by (simp only: of_int_le_iff)
      then show ?thesis by (simp add: mult_right_mono)
    qed
    also have "\<dots> = 2 powi (e + 53)"
      by (simp add: power_int_add)
    finally have le: "(2::rat) powi ?E \<le> 2 powi (e + 53)" .
    have "?E \<le> e + 53"
    proof (rule ccontr)
      assume "\<not> ?E \<le> e + 53"
      then have "e + 53 < ?E" by simp
      then have "(2::rat) powi (e + 53) < 2 powi ?E"
        by (rule power_int_strict_increasing) simp
      with le show False by simp
    qed
    with big have E: "?E = e + 53" by simp
    have "(2::rat) powi (e + 53) \<le> of_int \<bar>n\<bar> * 2 powi e"
      using lo unfolding E .
    then have "(2::rat) ^ 53 * 2 powi e \<le> of_int \<bar>n\<bar> * 2 powi e"
      by (simp add: power_int_add mult.commute)
    then have "(of_int (2 ^ 53) :: rat) \<le> of_int \<bar>n\<bar>"
      by simp
    then have "2 ^ 53 \<le> \<bar>n\<bar>"
      by (simp only: of_int_le_iff)
    with n have "\<bar>n\<bar> = 2 ^ 53" by simp
    then have n': "n = 2 ^ 53 \<or> n = - (2 ^ 53)" by (simp add: abs_if split: if_splits)
    have ee: "?e' = e + 1" using e' E by simp
    have "?y / 2 powi (e + 1) = of_int n / 2"
      by (simp add: power_int_add)
    with n' have "?y / 2 powi (e + 1) = of_int (2 ^ 52) \<or>
        ?y / 2 powi (e + 1) = of_int (- (2 ^ 52))"
      by auto
    then show ?thesis unfolding ee by blast
  qed
  then obtain k :: int where k: "?y / 2 powi ?e' = of_int k" by blast
  then have restore: "of_int k * 2 powi ?e' = ?y"
    by (metis nonzero_divide_eq_eq power_int_eq_0_iff zero_neq_numeral)
  show ?thesis
    using y0 y unfolding roundDouble_def Let_def k roundHalfEven_of_int restore
    by (simp add: not_le)
qed

lemma isDouble_roundDouble: "isDouble (roundDouble x)"
proof (cases "x = 0")
  case True
  then show ?thesis by (simp add: isDouble_def)
next
  case False
  let ?e = "max (exponentOf x - 52) (- 1074)"
  let ?n = "roundHalfEven (x / 2 powi ?e)"
  let ?y = "of_int ?n * (2::rat) powi ?e"
  show ?thesis
  proof (cases "2 powi 1024 \<le> \<bar>?y\<bar>")
    case True
    then show ?thesis using False by (simp add: roundDouble_def Let_def isDouble_def)
  next
    case small: False
    then have r: "roundDouble x = Finite ?y"
      using False by (simp add: roundDouble_def Let_def)
    have "roundDouble ?y = Finite ?y"
      using mantissa_bound [OF False] small by (intro grid_fixed) (simp_all add: not_le)
    then show ?thesis by (simp add: r isDouble_def)
  qed
qed

lemma roundDouble_of_int:
  assumes "\<bar>n\<bar> \<le> 2 ^ 53"
  shows "roundDouble (of_int n) = Finite (of_int n)"
proof -
  have "\<bar>of_int n * 2 powi 0\<bar> < (2::rat) powi 1024"
  proof -
    have "(of_int \<bar>n\<bar> :: rat) \<le> of_int (2 ^ 53)"
      using assms by (simp only: of_int_le_iff)
    also have "\<dots> < 2 powi 1024" by simp
    finally show ?thesis by simp
  qed
  with grid_fixed [of n 0] assms show ?thesis by simp
qed

text \<open>
  Addition and subtraction: the exact result on finite values, rounded; the rules of
  the format on the special values.
\<close>

fun ieeeAdd :: "ieee \<Rightarrow> ieee \<Rightarrow> ieee" where
  "ieeeAdd (Finite a) (Finite b) = roundDouble (a + b)"
| "ieeeAdd NaN _ = NaN"
| "ieeeAdd _ NaN = NaN"
| "ieeeAdd PosInfinity NegInfinity = NaN"
| "ieeeAdd NegInfinity PosInfinity = NaN"
| "ieeeAdd PosInfinity _ = PosInfinity"
| "ieeeAdd _ PosInfinity = PosInfinity"
| "ieeeAdd NegInfinity _ = NegInfinity"
| "ieeeAdd _ NegInfinity = NegInfinity"

fun ieeeSub :: "ieee \<Rightarrow> ieee \<Rightarrow> ieee" where
  "ieeeSub (Finite a) (Finite b) = roundDouble (a - b)"
| "ieeeSub NaN _ = NaN"
| "ieeeSub _ NaN = NaN"
| "ieeeSub PosInfinity PosInfinity = NaN"
| "ieeeSub NegInfinity NegInfinity = NaN"
| "ieeeSub PosInfinity _ = PosInfinity"
| "ieeeSub _ PosInfinity = NegInfinity"
| "ieeeSub NegInfinity _ = NegInfinity"
| "ieeeSub _ NegInfinity = PosInfinity"

text \<open>The type of the numbers, with \<open>0\<close>, \<open>+\<close> and \<open>-\<close>.\<close>

typedef number = "{v. isDouble v}"
  by (rule exI [of _ NaN]) (simp add: isDouble_def)

setup_lifting type_definition_number

lemma isDouble_special [simp]: "isDouble NaN" "isDouble PosInfinity" "isDouble NegInfinity"
  by (simp_all add: isDouble_def)

lemma isDouble_Finite: "isDouble (Finite r) \<longleftrightarrow> roundDouble r = Finite r"
  by (simp add: isDouble_def)

lemma isDouble_ieeeAdd: "isDouble (ieeeAdd a b)"
  by (cases a; cases b) (simp_all add: isDouble_roundDouble)

lemma isDouble_ieeeSub: "isDouble (ieeeSub a b)"
  by (cases a; cases b) (simp_all add: isDouble_roundDouble)

instantiation number :: "{zero, plus, minus}"
begin

lift_definition zero_number :: number is "Finite 0"
  by (simp add: isDouble_Finite)

lift_definition plus_number :: "number \<Rightarrow> number \<Rightarrow> number" is ieeeAdd
  by (rule isDouble_ieeeAdd)

lift_definition minus_number :: "number \<Rightarrow> number \<Rightarrow> number" is ieeeSub
  by (rule isDouble_ieeeSub)

instance ..

end

text \<open>
  The number that a numeric literal denotes, the rational value of a finite number, and
  the number of an integer literal.
\<close>

lift_definition ofRat :: "rat \<Rightarrow> number" is roundDouble
  by (rule isDouble_roundDouble)

lift_definition valueOf :: "number \<Rightarrow> rat option" is
  "\<lambda>v. case v of Finite r \<Rightarrow> Some r | _ \<Rightarrow> None" .

definition ofInt :: "int \<Rightarrow> number" where
  "ofInt n = ofRat (of_int n)"

text \<open>
  The integers of absolute value at most \<open>2 ^ 53\<close> are numbers, and a sum or difference
  whose exact value is one of them is not rounded.
\<close>

definition safeInt :: "rat \<Rightarrow> bool" where
  "safeInt r \<longleftrightarrow> of_int \<lfloor>r\<rfloor> = r \<and> \<bar>r\<bar> \<le> 2 ^ 53"

section \<open>Data model of the ledger\<close>

text \<open>
  The ledger lives in \<^verbatim>\<open>AppProvider\<close> (contexts/AppContext.tsx). Its entity types come
  from \<^verbatim>\<open>../types\<close>; the fields below are the ones the provider reads and writes.
  Identifiers are strings. Balances and amounts are JavaScript numbers, of type
  \<^typ>\<open>number\<close>, with the \<open>+\<close> and \<open>-\<close> of that type. A date is kept as the number
  that \<^verbatim>\<open>new Date(date).getTime()\<close> reads from the ISO date string, since the provider
  only ever compares dates through that number.
\<close>

datatype TransactionType = Income | Expense | Transfer

datatype TransactionSource = Manual | Investment | Receivable

datatype ReceivableStatus = Unpaid | Paid

type_synonym ident = string

type_synonym isodate = int

record account =
  a_id :: ident
  a_name :: string
  a_type :: string
  balance :: number

record platform =
  p_id :: ident
  p_name :: string

record investment =
  i_id :: ident
  i_name :: string
  i_date :: isodate
  i_accountId :: ident
  platformId :: ident
  initialValue :: number
  currentValue :: number

record transaction =
  t_id :: ident
  date :: isodate
  ttype :: TransactionType
  accountId :: ident
  toAccountId :: "ident option"
  amount :: number
  category :: string
  description :: string
  source :: TransactionSource
  linkedInvestmentId :: "ident option"
  linkedReceivableId :: "ident option"

record receivable =
  r_id :: ident
  debtorName :: string
  r_amount :: number
  dueDate :: isodate
  r_accountId :: ident
  status :: ReceivableStatus

text \<open>The five collections held by the provider.\<close>

record store =
  accounts :: "account list"
  platforms :: "platform list"
  investments :: "investment list"
  transactions :: "transaction list"
  receivables :: "receivable list"

definition emptyStore :: store where
  "emptyStore = \<lparr>accounts = [], platforms = [], investments = [], transactions = [],
     receivables = []\<rparr>"

section \<open>State setters\<close>

text \<open>
  Modelled from the spec: the hook \<^verbatim>\<open>useLocalStorage\<close> (hooks/useLocalStorage) is not among
  the sources. A collection is one value of the store, loaded at start-up and saved on
  every mutation; a setter called with an updater function applies it to the latest
  value of its collection, so that the setter calls of one operation take effect in the
  order in which they are made. The variables \<^verbatim>\<open>accounts\<close>, \<^verbatim>\<open>transactions\<close>, ... that an
  operation reads directly are the collections as they were when the operation began.
\<close>

definition setAccounts :: "(account list \<Rightarrow> account list) \<Rightarrow> store \<Rightarrow> store" where
  "setAccounts f s = s\<lparr>accounts := f (accounts s)\<rparr>"

definition setPlatforms :: "(platform list \<Rightarrow> platform list) \<Rightarrow> store \<Rightarrow> store" where
  "setPlatforms f s = s\<lparr>platforms := f (platforms s)\<rparr>"

definition setInvestments :: "(investment list \<Rightarrow> investment list) \<Rightarrow> store \<Rightarrow> store" where
  "setInvestments f s = s\<lparr>investments := f (investments s)\<rparr>"

definition setTransactions :: "(transaction list \<Rightarrow> transaction list) \<Rightarrow> store \<Rightarrow> store" where
  "setTransactions f s = s\<lparr>transactions := f (transactions s)\<rparr>"

definition setReceivables :: "(receivable list \<Rightarrow> receivable list) \<Rightarrow> store \<Rightarrow> store" where
  "setReceivables f s = s\<lparr>receivables := f (receivables s)\<rparr>"

section \<open>Operations of the provider\<close>

text \<open>
  \<^verbatim>\<open>xs.sort((a, b) => new Date(b.date).getTime() - new Date(a.date).getTime())\<close>:
  a stable sort, newest date first.
\<close>

definition sortByDate :: "transaction list \<Rightarrow> transaction list" where
  "sortByDate txs = sort_key (\<lambda>t. - date t) txs"

text \<open>The reserved category of the opening-balance transaction.\<close>

definition saldoAwal :: string where
  "saldoAwal = ''Saldo Awal''"

text \<open>The body of the \<^verbatim>\<open>map\<close> in \<^verbatim>\<open>addTransaction\<close> (lines 51-60), in its branch order.\<close>

definition creditLeg :: "transaction \<Rightarrow> account \<Rightarrow> account" where
  "creditLeg newTransaction acc =
     (if Some (a_id acc) = toAccountId newTransaction \<and> ttype newTransaction = Transfer
      then acc\<lparr>balance := balance acc + amount newTransaction\<rparr>
      else acc)"

definition applyTransaction :: "transaction \<Rightarrow> account \<Rightarrow> account" where
  "applyTransaction newTransaction acc =
     (if a_id acc = accountId newTransaction then
        (if ttype newTransaction = Income
         then acc\<lparr>balance := balance acc + amount newTransaction\<rparr>
         else if ttype newTransaction = Expense \<or> ttype newTransaction = Transfer
         then acc\<lparr>balance := balance acc - amount newTransaction\<rparr>
         else creditLeg newTransaction acc)
      else creditLeg newTransaction acc)"

text \<open>
  Every operation that creates a record takes the identifier that
  \<^verbatim>\<open>crypto.randomUUID()\<close> returns as its argument \<open>nid\<close>, and every operation that
  stamps a transaction with the current day takes that day as \<open>today\<close>.
\<close>

definition addTransaction :: "ident \<Rightarrow> transaction \<Rightarrow> store \<Rightarrow> store" where
  "addTransaction nid transaction s =
     (let newTransaction = transaction\<lparr>t_id := nid\<rparr> in
      setAccounts (map (applyTransaction newTransaction))
        (setTransactions (\<lambda>prev. sortByDate (newTransaction # prev)) s))"

definition addAccount :: "ident \<Rightarrow> ident \<Rightarrow> isodate \<Rightarrow> account \<Rightarrow> number \<Rightarrow> store \<Rightarrow> store" where
  "addAccount nid tid today account initialBalance s =
     (let newAccount = account\<lparr>a_id := nid, balance := 0\<rparr>;
          s1 = setAccounts (\<lambda>prev. prev @ [newAccount]) s
      in if initialBalance \<noteq> 0
         then addTransaction tid
                \<lparr>t_id = [], date = today, ttype = Income, accountId = a_id newAccount,
                 toAccountId = None, amount = initialBalance, category = saldoAwal,
                 description = ''Saldo awal untuk rekening '' @ a_name newAccount,
                 source = Manual, linkedInvestmentId = None, linkedReceivableId = None\<rparr> s1
         else s1)"

text \<open>\<^verbatim>\<open>xs.findIndex(p)\<close>: the index of the first element satisfying \<open>p\<close>, if any.\<close>

fun findIndex :: "('a \<Rightarrow> bool) \<Rightarrow> 'a list \<Rightarrow> nat option" where
  "findIndex p [] = None"
| "findIndex p (x # xs) =
     (if p x then Some 0 else map_option Suc (findIndex p xs))"

text \<open>\<^verbatim>\<open>xs.splice(i, 1)\<close> on a copy: the list without its element at index \<open>i\<close>.\<close>

definition splice1 :: "nat \<Rightarrow> 'a list \<Rightarrow> 'a list" where
  "splice1 i xs = take i xs @ drop (Suc i) xs"

definition isInitialTx :: "ident \<Rightarrow> transaction \<Rightarrow> bool" where
  "isInitialTx aid t \<longleftrightarrow> accountId t = aid \<and> category t = saldoAwal"

definition updateAccount :: "ident \<Rightarrow> isodate \<Rightarrow> account \<Rightarrow> number \<Rightarrow> store \<Rightarrow> store" where
  "updateAccount tid today updatedAccountData newInitialBalance s =
     (let initialTxIndex = findIndex (isInitialTx (a_id updatedAccountData)) (transactions s);
          oldInitialBalance =
            (case initialTxIndex of None \<Rightarrow> 0 | Some i \<Rightarrow> amount (transactions s ! i));
          balanceDifference = newInitialBalance - oldInitialBalance;
          s1 = setTransactions (\<lambda>prevTxs.
                 sortByDate
                   (case initialTxIndex of
                      Some i \<Rightarrow>
                        if newInitialBalance = 0 then splice1 i prevTxs
                        else prevTxs[i := (prevTxs ! i)\<lparr>amount := newInitialBalance\<rparr>]
                    | None \<Rightarrow>
                        if newInitialBalance \<noteq> 0
                        then \<lparr>t_id = tid, date = today, ttype = Income,
                              accountId = a_id updatedAccountData, toAccountId = None,
                              amount = newInitialBalance, category = saldoAwal,
                              description = ''Saldo awal untuk rekening '' @
                                a_name updatedAccountData,
                              source = Manual, linkedInvestmentId = None,
                              linkedReceivableId = None\<rparr> # prevTxs
                        else prevTxs)) s
      in setAccounts (map (\<lambda>acc.
           if a_id acc = a_id updatedAccountData
           then acc\<lparr>a_name := a_name updatedAccountData, a_type := a_type updatedAccountData,
                  balance := balance acc + balanceDifference\<rparr>
           else acc)) s1)"

definition isAccountInUse :: "ident \<Rightarrow> store \<Rightarrow> bool" where
  "isAccountInUse aid s \<longleftrightarrow>
     list_ex (\<lambda>t. (accountId t = aid \<or> toAccountId t = Some aid) \<and> category t \<noteq> saldoAwal)
       (transactions s)
     \<or> list_ex (\<lambda>i. i_accountId i = aid) (investments s)"

text \<open>
  A rejected deletion shows a blocking notice (\<^verbatim>\<open>alert\<close>) and returns without calling a
  setter. The notice is the first component of the result.
\<close>

datatype notice = AccountInUse | PlatformInUse

definition deleteAccount :: "ident \<Rightarrow> store \<Rightarrow> notice option \<times> store" where
  "deleteAccount aid s =
     (if isAccountInUse aid s then (Some AccountInUse, s)
      else (None,
        setTransactions (filter (\<lambda>t. \<not> (accountId t = aid \<and> category t = saldoAwal)))
          (setAccounts (filter (\<lambda>acc. a_id acc \<noteq> aid)) s)))"

definition getAccount :: "ident \<Rightarrow> store \<Rightarrow> account option" where
  "getAccount aid s = find (\<lambda>a. a_id a = aid) (accounts s)"

definition addPlatform :: "ident \<Rightarrow> platform \<Rightarrow> store \<Rightarrow> store" where
  "addPlatform nid platform s = setPlatforms (\<lambda>prev. prev @ [platform\<lparr>p_id := nid\<rparr>]) s"

definition updatePlatform :: "platform \<Rightarrow> store \<Rightarrow> store" where
  "updatePlatform updatedPlatform s =
     setPlatforms (map (\<lambda>p. if p_id p = p_id updatedPlatform then updatedPlatform else p)) s"

definition isPlatformInUse :: "ident \<Rightarrow> store \<Rightarrow> bool" where
  "isPlatformInUse pid s \<longleftrightarrow> list_ex (\<lambda>i. platformId i = pid) (investments s)"

definition deletePlatform :: "ident \<Rightarrow> store \<Rightarrow> notice option \<times> store" where
  "deletePlatform pid s =
     (if isPlatformInUse pid s then (Some PlatformInUse, s)
      else (None, setPlatforms (filter (\<lambda>p. p_id p \<noteq> pid)) s))"

definition getPlatform :: "ident \<Rightarrow> store \<Rightarrow> platform option" where
  "getPlatform pid s = find (\<lambda>p. p_id p = pid) (platforms s)"

definition addInvestment :: "ident \<Rightarrow> ident \<Rightarrow> investment \<Rightarrow> store \<Rightarrow> store" where
  "addInvestment nid tid investment s =
     (let newInvestment = investment\<lparr>i_id := nid\<rparr>;
          s1 = setInvestments (\<lambda>prev. prev @ [newInvestment]) s
      in addTransaction tid
           \<lparr>t_id = [], date = i_date investment, ttype = Expense,
            accountId = i_accountId investment, toAccountId = None,
            amount = initialValue investment, category = ''Investasi'',
            description = ''Modal awal investasi '' @ i_name investment,
            source = Investment, linkedInvestmentId = Some (i_id newInvestment),
            linkedReceivableId = None\<rparr> s1)"

definition updateInvestment :: "investment \<Rightarrow> store \<Rightarrow> store" where
  "updateInvestment updatedInvestment s =
     setInvestments (map (\<lambda>inv.
       if i_id inv = i_id updatedInvestment
       then inv\<lparr>i_name := i_name updatedInvestment, i_date := i_date updatedInvestment,
              platformId := platformId updatedInvestment\<rparr>
       else inv)) s"

definition updateInvestmentValue :: "ident \<Rightarrow> number \<Rightarrow> store \<Rightarrow> store" where
  "updateInvestmentValue iid newValue s =
     setInvestments (map (\<lambda>inv.
       if i_id inv = iid then inv\<lparr>currentValue := newValue\<rparr> else inv)) s"

definition deleteInvestment :: "ident \<Rightarrow> isodate \<Rightarrow> ident \<Rightarrow> store \<Rightarrow> store" where
  "deleteInvestment tid today iid s =
     (case find (\<lambda>inv. i_id inv = iid) (investments s) of
        None \<Rightarrow> s
      | Some investmentToDelete \<Rightarrow>
          setTransactions
            (filter (\<lambda>t. \<not> (linkedInvestmentId t = Some iid \<and> source t = Investment)))
            (setInvestments (filter (\<lambda>inv. i_id inv \<noteq> iid))
              (addTransaction tid
                \<lparr>t_id = [], date = today, ttype = Income,
                 accountId = i_accountId investmentToDelete, toAccountId = None,
                 amount = initialValue investmentToDelete,
                 category = ''Pengembalian Investasi'',
                 description = ''Pengembalian modal investasi '' @
                   i_name investmentToDelete,
                 source = Investment, linkedInvestmentId = Some iid,
                 linkedReceivableId = None\<rparr> s)))"

definition addReceivable :: "ident \<Rightarrow> ident \<Rightarrow> isodate \<Rightarrow> receivable \<Rightarrow> store \<Rightarrow> store" where
  "addReceivable nid tid today receivable s =
     (let newReceivable = receivable\<lparr>r_id := nid, status := Unpaid\<rparr>;
          s1 = setReceivables (\<lambda>prev. prev @ [newReceivable]) s
      in addTransaction tid
           \<lparr>t_id = [], date = today, ttype = Expense,
            accountId = r_accountId newReceivable, toAccountId = None,
            amount = r_amount newReceivable, category = ''Piutang'',
            description = ''Piutang kepada '' @ debtorName newReceivable,
            source = Receivable, linkedInvestmentId = None,
            linkedReceivableId = Some (r_id newReceivable)\<rparr> s1)"

definition updateReceivable :: "receivable \<Rightarrow> store \<Rightarrow> store" where
  "updateReceivable updatedReceivable s =
     setReceivables (map (\<lambda>r.
       if r_id r = r_id updatedReceivable
       then r\<lparr>debtorName := debtorName updatedReceivable,
              dueDate := dueDate updatedReceivable\<rparr>
       else r)) s"

text \<open>
  \<^verbatim>\<open>deleteReceivable\<close> recomputes every balance from the remaining log: the amount of the
  first opening-balance transaction of the account (0 without one), then the loop of
  lines 252-265 over the other transactions.
\<close>

definition replayStep :: "ident \<Rightarrow> number \<Rightarrow> transaction \<Rightarrow> number" where
  "replayStep aid newBalance t =
     (let b1 =
        (if accountId t = aid then
           (if ttype t = Income then newBalance + amount t
            else if ttype t = Expense \<or> ttype t = Transfer then newBalance - amount t
            else newBalance)
         else newBalance)
      in if toAccountId t = Some aid \<and> ttype t = Transfer then b1 + amount t else b1)"

definition recomputeBalance :: "transaction list \<Rightarrow> account \<Rightarrow> account" where
  "recomputeBalance newTransactions account =
     (let initialBalanceTx = find (isInitialTx (a_id account)) newTransactions;
          newBalance = (case initialBalanceTx of Some t \<Rightarrow> amount t | None \<Rightarrow> 0)
      in account\<lparr>balance :=
           foldl (replayStep (a_id account)) newBalance
             (filter (\<lambda>t. category t \<noteq> saldoAwal) newTransactions)\<rparr>)"

definition deleteReceivable :: "ident \<Rightarrow> store \<Rightarrow> store" where
  "deleteReceivable rid s =
     (let newReceivables = filter (\<lambda>r. r_id r \<noteq> rid) (receivables s);
          newTransactions = filter (\<lambda>t. linkedReceivableId t \<noteq> Some rid) (transactions s);
          newAccounts = map (recomputeBalance newTransactions) (accounts s)
      in setAccounts (\<lambda>_. newAccounts)
           (setTransactions (\<lambda>_. sortByDate newTransactions)
             (setReceivables (\<lambda>_. newReceivables) s)))"

definition markReceivableAsPaid :: "ident \<Rightarrow> isodate \<Rightarrow> ident \<Rightarrow> ident \<Rightarrow> store \<Rightarrow> store" where
  "markReceivableAsPaid tid today rid aid s =
     (case find (\<lambda>r. r_id r = rid) (receivables s) of
        None \<Rightarrow> s
      | Some receivable \<Rightarrow>
          addTransaction tid
            \<lparr>t_id = [], date = today, ttype = Income, accountId = aid, toAccountId = None,
             amount = r_amount receivable, category = ''Piutang'',
             description = ''Pembayaran piutang dari '' @ debtorName receivable,
             source = Receivable, linkedInvestmentId = None,
             linkedReceivableId = Some rid\<rparr>
            (setReceivables (map (\<lambda>r. if r_id r = rid then r\<lparr>status := Paid\<rparr> else r)) s))"

section \<open>A concrete ledger\<close>

text \<open>
  A store with two accounts, each opened with 500, and one receivable of 200 lent from
  account A and paid back into it. It is the input of the concrete checks below.
\<close>

definition demoOpening :: "ident \<Rightarrow> ident \<Rightarrow> transaction" where
  "demoOpening tid aid =
     \<lparr>t_id = tid, date = 1, ttype = Income, accountId = aid, toAccountId = None,
      amount = ofInt 500, category = saldoAwal, description = ''Saldo awal untuk rekening Kas'',
      source = Manual, linkedInvestmentId = None, linkedReceivableId = None\<rparr>"

definition demoLoan :: transaction where
  "demoLoan =
     \<lparr>t_id = ''t3'', date = 2, ttype = Expense, accountId = ''A'', toAccountId = None,
      amount = ofInt 200, category = ''Piutang'', description = ''Piutang kepada Budi'',
      source = Receivable, linkedInvestmentId = None, linkedReceivableId = Some ''r1''\<rparr>"

definition demoPayment :: transaction where
  "demoPayment =
     \<lparr>t_id = ''t4'', date = 3, ttype = Income, accountId = ''A'', toAccountId = None,
      amount = ofInt 200, category = ''Piutang'', description = ''Pembayaran piutang dari Budi'',
      source = Receivable, linkedInvestmentId = None, linkedReceivableId = Some ''r1''\<rparr>"

definition demoReceivable :: receivable where
  "demoReceivable =
     \<lparr>r_id = ''r1'', debtorName = ''Budi'', r_amount = ofInt 200, dueDate = 9, r_accountId = ''A'',
      status = Paid\<rparr>"

definition demoAccount :: "ident \<Rightarrow> account" where
  "demoAccount aid = \<lparr>a_id = aid, a_name = ''Kas'', a_type = ''Tunai'', balance = ofInt 500\<rparr>"

definition demoStore :: store where
  "demoStore =
     \<lparr>accounts = [demoAccount ''A'', demoAccount ''B''], platforms = [], investments = [],
      transactions = [demoPayment, demoLoan, demoOpening ''t2'' ''B'', demoOpening ''t1'' ''A''],
      receivables = [demoReceivable]\<rparr>"

text \<open>
  The value of a number as a rational, where it is finite, and 0 otherwise; a whole
  number is a finite number whose value is an integer.
\<close>

definition ratOf :: "number \<Rightarrow> rat" where
  "ratOf x = (case valueOf x of Some r \<Rightarrow> r | None \<Rightarrow> 0)"

definition isWhole :: "number \<Rightarrow> bool" where
  "isWhole x \<longleftrightarrow> (case valueOf x of Some r \<Rightarrow> of_int \<lfloor>r\<rfloor> = r | None \<Rightarrow> False)"

text \<open>
  What the specification says of a transfer of \<open>m\<close> from account \<open>A\<close> to account \<open>B\<close>:
  both accounts exist before and after, all balances are finite, the balance of \<open>A\<close> is
  \<open>m\<close> lower, the balance of \<open>B\<close> is \<open>m\<close> higher, and the two balances add up to what
  they did. The differences and the total are those of the values, not rounded.
\<close>

definition transferMoved :: "ident \<Rightarrow> ident \<Rightarrow> number \<Rightarrow> store \<Rightarrow> store \<Rightarrow> bool" where
  "transferMoved A B m s s' \<longleftrightarrow>
     (case (getAccount A s, getAccount B s, getAccount A s', getAccount B s') of
        (Some a, Some b, Some a', Some b') \<Rightarrow>
          (case (valueOf (balance a), valueOf (balance b), valueOf (balance a'),
                 valueOf (balance b'), valueOf m) of
             (Some x, Some y, Some x', Some y', Some v) \<Rightarrow>
               x' = x - v \<and> y' = y + v \<and> x' + y' = x + y
           | _ \<Rightarrow> False)
      | _ \<Rightarrow> False)"

definition demoSelfTransfer :: transaction where
  "demoSelfTransfer =
     \<lparr>t_id = [], date = 4, ttype = Transfer, accountId = ''A'', toAccountId = Some ''A'',
      amount = ofInt 100, category = ''Transfer'', description = [], source = Manual,
      linkedInvestmentId = None, linkedReceivableId = None\<rparr>"

definition demoTransfer :: transaction where
  "demoTransfer =
     \<lparr>t_id = [], date = 4, ttype = Transfer, accountId = ''A'', toAccountId = Some ''B'',
      amount = ofInt 100, category = ''Transfer'', description = [], source = Manual,
      linkedInvestmentId = None, linkedReceivableId = None\<rparr>"

definition demoInvestment :: investment where
  "demoInvestment =
     \<lparr>i_id = [], i_name = ''Reksadana'', i_date = 4, i_accountId = ''A'', platformId = ''p1'',
      initialValue = ofInt 1000, currentValue = ofInt 1000\<rparr>"

text \<open>
  The transactions that \<^verbatim>\<open>deleteInvestment\<close> filters out of the log (line 214).
\<close>

definition linkedTo :: "ident \<Rightarrow> transaction \<Rightarrow> bool" where
  "linkedTo iid t \<longleftrightarrow> linkedInvestmentId t = Some iid \<and> source t = Investment"


section \<open>Sequences of operations\<close>

text \<open>
  One call of an operation of the provider, with the identifiers and the day that the
  environment supplies to it.
\<close>

datatype call =
    AddTransaction ident transaction
  | AddAccount ident ident isodate account number
  | UpdateAccount ident isodate account number
  | DeleteAccount ident
  | AddPlatform ident platform
  | UpdatePlatform platform
  | DeletePlatform ident
  | AddInvestment ident ident investment
  | UpdateInvestment investment
  | UpdateInvestmentValue ident number
  | DeleteInvestment ident isodate ident
  | AddReceivable ident ident isodate receivable
  | UpdateReceivable receivable
  | DeleteReceivable ident
  | MarkReceivableAsPaid ident isodate ident ident

fun perform :: "call \<Rightarrow> store \<Rightarrow> store" where
  "perform (AddTransaction nid tx) s = addTransaction nid tx s"
| "perform (AddAccount nid tid today account initialBalance) s =
     addAccount nid tid today account initialBalance s"
| "perform (UpdateAccount tid today account newInitialBalance) s =
     updateAccount tid today account newInitialBalance s"
| "perform (DeleteAccount aid) s = snd (deleteAccount aid s)"
| "perform (AddPlatform nid platform) s = addPlatform nid platform s"
| "perform (UpdatePlatform platform) s = updatePlatform platform s"
| "perform (DeletePlatform pid) s = snd (deletePlatform pid s)"
| "perform (AddInvestment nid tid investment) s = addInvestment nid tid investment s"
| "perform (UpdateInvestment investment) s = updateInvestment investment s"
| "perform (UpdateInvestmentValue iid newValue) s = updateInvestmentValue iid newValue s"
| "perform (DeleteInvestment tid today iid) s = deleteInvestment tid today iid s"
| "perform (AddReceivable nid tid today receivable) s = addReceivable nid tid today receivable s"
| "perform (UpdateReceivable receivable) s = updateReceivable receivable s"
| "perform (DeleteReceivable rid) s = deleteReceivable rid s"
| "perform (MarkReceivableAsPaid tid today rid aid) s = markReceivableAsPaid tid today rid aid s"

text \<open>
  An identifier occurs in the store when some record carries it or refers to it. The
  identifier that \<^verbatim>\<open>crypto.randomUUID()\<close> gives to a new account or a new investment
  does not occur in the store.
\<close>

definition occursIn :: "ident \<Rightarrow> store \<Rightarrow> bool" where
  "occursIn x s \<longleftrightarrow>
     list_ex (\<lambda>a. a_id a = x) (accounts s) \<or>
     list_ex (\<lambda>p. p_id p = x) (platforms s) \<or>
     list_ex (\<lambda>i. i_id i = x \<or> i_accountId i = x \<or> platformId i = x) (investments s) \<or>
     list_ex (\<lambda>t. t_id t = x \<or> accountId t = x \<or> toAccountId t = Some x \<or>
                linkedInvestmentId t = Some x \<or> linkedReceivableId t = Some x)
       (transactions s) \<or>
     list_ex (\<lambda>r. r_id r = x \<or> r_accountId r = x) (receivables s)"

text \<open>
  A call is admissible when the transaction of a caller's \<open>addTransaction\<close> satisfies
  \<open>ok\<close> and the identifier of a new account or investment does not occur in the store.
  The reachable stores are those that admissible calls produce from the empty store.
\<close>

fun admissible :: "(transaction \<Rightarrow> bool) \<Rightarrow> call \<Rightarrow> store \<Rightarrow> bool" where
  "admissible ok (AddTransaction nid tx) s = ok tx"
| "admissible ok (AddAccount nid tid today account initialBalance) s = (\<not> occursIn nid s)"
| "admissible ok (AddInvestment nid tid investment) s = (\<not> occursIn nid s)"
| "admissible ok c s = True"

inductive reachable :: "(transaction \<Rightarrow> bool) \<Rightarrow> store \<Rightarrow> bool" for ok where
  start: "reachable ok emptyStore"
| step: "reachable ok s \<Longrightarrow> admissible ok c s \<Longrightarrow> reachable ok (perform c s)"

text \<open>The transactions that a caller may pass to \<open>addTransaction\<close>.\<close>

definition anyEntry :: "transaction \<Rightarrow> bool" where
  "anyEntry tx \<longleftrightarrow> True"

definition notOpening :: "transaction \<Rightarrow> bool" where
  "notOpening tx \<longleftrightarrow> category tx \<noteq> saldoAwal"

definition manualEntry :: "transaction \<Rightarrow> bool" where
  "manualEntry tx \<longleftrightarrow>
     category tx \<noteq> saldoAwal \<and>
     \<not> (ttype tx = Transfer \<and> toAccountId tx = Some (accountId tx)) \<and>
     \<not> (source tx = Investment \<and> linkedInvestmentId tx \<noteq> None)"

section \<open>The ledger invariants of the specification\<close>

text \<open>
  The signed effect of a transaction on an account, in the words of the specification:
  \<open>+amount\<close> for an Income transaction on its \<open>accountId\<close>, \<open>-amount\<close> for an Expense or
  Transfer transaction on its \<open>accountId\<close>, and \<open>+amount\<close> for a Transfer transaction
  naming the account as \<open>toAccountId\<close>.
\<close>

definition effect :: "transaction \<Rightarrow> ident \<Rightarrow> rat" where
  "effect t aid =
     (if accountId t = aid \<and> ttype t = Income then ratOf (amount t) else 0) +
     (if accountId t = aid \<and> (ttype t = Expense \<or> ttype t = Transfer)
      then - ratOf (amount t) else 0) +
     (if toAccountId t = Some aid \<and> ttype t = Transfer then ratOf (amount t) else 0)"

definition signedSum :: "transaction list \<Rightarrow> ident \<Rightarrow> rat" where
  "signedSum txs aid = sum_list (map (\<lambda>t. effect t aid) txs)"

text \<open>
  The balance of every account is finite and its value is the signed sum, taken over
  the values without rounding.
\<close>

definition consistent :: "account list \<Rightarrow> transaction list \<Rightarrow> bool" where
  "consistent accs txs \<longleftrightarrow>
     list_all (\<lambda>acc. valueOf (balance acc) = Some (signedSum txs (a_id acc))) accs"

definition balancesConsistent :: "store \<Rightarrow> bool" where
  "balancesConsistent s \<longleftrightarrow> consistent (accounts s) (transactions s)"

text \<open>At most one opening-balance transaction per account.\<close>

definition isOpening :: "transaction \<Rightarrow> bool" where
  "isOpening t \<longleftrightarrow> category t = saldoAwal"

definition uniqueOpenings :: "transaction list \<Rightarrow> bool" where
  "uniqueOpenings txs \<longleftrightarrow> distinct (map accountId (filter isOpening txs))"

definition openingUnique :: "store \<Rightarrow> bool" where
  "openingUnique s \<longleftrightarrow> uniqueOpenings (transactions s)"

text \<open>
  Two further properties of the log that the operations maintain and on which the
  balances depend: an opening-balance transaction is an Income, and a stored investment
  has exactly one linked transaction with source \<open>Investment\<close>, the Expense of its
  initial value on its funding account, while an identifier that no investment carries
  has none.
\<close>

definition incomeOpenings :: "transaction list \<Rightarrow> bool" where
  "incomeOpenings txs \<longleftrightarrow> list_all (\<lambda>t. isOpening t \<longrightarrow> ttype t = Income) txs"

definition outflowOf :: "investment \<Rightarrow> transaction \<Rightarrow> bool" where
  "outflowOf iv t \<longleftrightarrow>
     ttype t = Expense \<and> accountId t = i_accountId iv \<and> amount t = initialValue iv \<and>
     \<not> isOpening t \<and> linkedReceivableId t = None"

definition investmentsLinked :: "investment list \<Rightarrow> transaction list \<Rightarrow> bool" where
  "investmentsLinked ivs txs \<longleftrightarrow>
     (\<forall>iid. case find (\<lambda>iv. i_id iv = iid) ivs of
        None \<Rightarrow> filter (linkedTo iid) txs = []
      | Some iv \<Rightarrow> (\<exists>t. filter (linkedTo iid) txs = [t] \<and> outflowOf iv t))"

text \<open>
  The range in which the additions and subtractions of the provider are exact: every
  amount of the log is a whole number, and the absolute values of the amounts of the
  log add up to less than \<open>2 ^ 52\<close>.
\<close>

definition logVolume :: "transaction list \<Rightarrow> rat" where
  "logVolume txs = sum_list (map (\<lambda>t. \<bar>ratOf (amount t)\<bar>) txs)"

definition wholeLog :: "transaction list \<Rightarrow> bool" where
  "wholeLog txs \<longleftrightarrow> list_all (\<lambda>t. isWhole (amount t)) txs \<and> logVolume txs < 2 ^ 52"

definition withinRange :: "store \<Rightarrow> bool" where
  "withinRange s \<longleftrightarrow> wholeLog (transactions s)"

definition ledgerInv :: "store \<Rightarrow> bool" where
  "ledgerInv s \<longleftrightarrow>
     consistent (accounts s) (transactions s) \<and> uniqueOpenings (transactions s) \<and>
     incomeOpenings (transactions s) \<and> investmentsLinked (investments s) (transactions s) \<and>
     wholeLog (transactions s)"

text \<open>
  The stores reachable from the empty store by admissible calls of manual entries that
  leave the log within that range.
\<close>

inductive reachableWithin :: "store \<Rightarrow> bool" where
  start: "reachableWithin emptyStore"
| step: "reachableWithin s \<Longrightarrow> admissible manualEntry c s \<Longrightarrow> withinRange (perform c s) \<Longrightarrow>
     reachableWithin (perform c s)"

text \<open>
  The body of the \<^verbatim>\<open>map\<close> over the accounts in \<open>updateAccount\<close> (lines 120-129), for
  a balance difference \<open>d\<close>.
\<close>

definition patchAccount :: "account \<Rightarrow> number \<Rightarrow> account \<Rightarrow> account" where
  "patchAccount upd d acc =
     (if a_id acc = a_id upd
      then acc\<lparr>a_name := a_name upd, a_type := a_type upd, balance := balance acc + d\<rparr>
      else acc)"

section \<open>Concrete call sequences\<close>

text \<open>The calls that build \<open>demoStore\<close> from the empty store.\<close>

definition demoCalls :: "call list" where
  "demoCalls =
     [AddAccount ''A'' ''t1'' 1 (demoAccount []) (ofInt 500),
      AddAccount ''B'' ''t2'' 1 (demoAccount []) (ofInt 500),
      AddReceivable ''r1'' ''t3'' 2
        \<lparr>r_id = [], debtorName = ''Budi'', r_amount = ofInt 200, dueDate = 9, r_accountId = ''A'',
         status = Unpaid\<rparr>,
      MarkReceivableAsPaid ''t4'' 3 ''r1'' ''A'']"

text \<open>A store with the single account A, opened with 500.\<close>

definition openedStore :: store where
  "openedStore = perform (AddAccount ''A'' ''t1'' 1 (demoAccount []) (ofInt 500)) emptyStore"

text \<open>
  Three transactions that a caller can pass to \<open>addTransaction\<close>: an expense and an
  income typed in under the category Saldo Awal, and an income that carries the source
  and the link of the investment i1.
\<close>

definition expenseAsOpening :: transaction where
  "expenseAsOpening =
     \<lparr>t_id = [], date = 2, ttype = Expense, accountId = ''A'', toAccountId = None,
      amount = ofInt 100, category = ''Saldo Awal'', description = [], source = Manual,
      linkedInvestmentId = None, linkedReceivableId = None\<rparr>"

definition incomeAsOpening :: transaction where
  "incomeAsOpening =
     \<lparr>t_id = [], date = 2, ttype = Income, accountId = ''A'', toAccountId = None,
      amount = ofInt 100, category = ''Saldo Awal'', description = [], source = Manual,
      linkedInvestmentId = None, linkedReceivableId = None\<rparr>"

definition incomeAsInvestment :: transaction where
  "incomeAsInvestment =
     \<lparr>t_id = [], date = 5, ttype = Income, accountId = ''A'', toAccountId = None,
      amount = ofInt 50, category = ''Bonus'', description = [], source = Investment,
      linkedInvestmentId = Some ''i1'', linkedReceivableId = None\<rparr>"

text \<open>
  Amounts at the edge of the whole numbers that a JavaScript number holds exactly:
  \<open>2 ^ 53\<close> and \<open>2 ^ 53 + 2\<close> are numbers, \<open>2 ^ 53 + 1\<close> is not. The store
  \<open>unitStore\<close> has the single account A, opened with 1; \<open>edgeStore\<close> has a second
  account B, opened with 0.
\<close>

definition unitStore :: store where
  "unitStore = perform (AddAccount ''A'' ''t1'' 1 (demoAccount []) (ofInt 1)) emptyStore"

definition edgeStore :: store where
  "edgeStore = perform (AddAccount ''B'' ''t2'' 1 (demoAccount []) 0) unitStore"

definition bigTransfer :: transaction where
  "bigTransfer =
     \<lparr>t_id = [], date = 2, ttype = Transfer, accountId = ''A'', toAccountId = Some ''B'',
      amount = ofInt 9007199254740994, category = ''Transfer'', description = [],
      source = Manual, linkedInvestmentId = None, linkedReceivableId = None\<rparr>"

definition bigInvestment :: investment where
  "bigInvestment =
     \<lparr>i_id = [], i_name = ''Reksadana'', i_date = 2, i_accountId = ''A'', platformId = ''p1'',
      initialValue = ofInt 9007199254740994, currentValue = ofInt 9007199254740994\<rparr>"

definition bigIncome :: transaction where
  "bigIncome =
     \<lparr>t_id = [], date = 2, ttype = Income, accountId = ''A'', toAccountId = None,
      amount = ofInt 9007199254740992, category = ''Gaji'', description = [],
      source = Manual, linkedInvestmentId = None, linkedReceivableId = None\<rparr>"

definition unitIncome :: transaction where
  "unitIncome =
     \<lparr>t_id = [], date = 3, ttype = Income, accountId = ''A'', toAccountId = None,
      amount = ofInt 1, category = ''Bonus'', description = [],
      source = Manual, linkedInvestmentId = None, linkedReceivableId = None\<rparr>"

text \<open>
  A store with the accounts A and B, each opened with 500, and a transfer from B to A
  that a caller enters under the category Saldo Awal.
\<close>

definition pairStore :: store where
  "pairStore = perform (AddAccount ''B'' ''t2'' 1 (demoAccount []) (ofInt 500)) openedStore"

definition transferAsOpening :: transaction where
  "transferAsOpening =
     \<lparr>t_id = [], date = 2, ttype = Transfer, accountId = ''B'', toAccountId = Some ''A'',
      amount = ofInt 100, category = ''Saldo Awal'', description = [], source = Manual,
      linkedInvestmentId = None, linkedReceivableId = None\<rparr>"

text \<open>
  The condition under which the specification rejects \<open>deleteAccount\<close>, in its words: some
  transaction other than the opening-balance entry of the account refers to the account
  as \<open>accountId\<close> or \<open>toAccountId\<close>, or some investment refers to it as its funding account.
  The opening-balance entry of an account is recognised as \<open>updateAccount\<close> and
  \<open>deleteReceivable\<close> recognise it, by \<open>isInitialTx\<close>.
\<close>

definition inUseBySpec :: "ident \<Rightarrow> store \<Rightarrow> bool" where
  "inUseBySpec aid s \<longleftrightarrow>
     list_ex (\<lambda>t. (accountId t = aid \<or> toAccountId t = Some aid) \<and> \<not> isInitialTx aid t)
       (transactions s)
     \<or> list_ex (\<lambda>i. i_accountId i = aid) (investments s)"

section \<open>Facts about numbers\<close>

lemma zero_plus_number [simp]: "0 + x = (x::number)"
proof (transfer)
  fix x assume "isDouble x"
  then show "ieeeAdd (Finite 0) x = x"
    by (cases x) (simp_all add: isDouble_Finite)
qed

lemma valueOf_zero [simp]: "valueOf 0 = Some 0"
  by transfer simp

lemma valueOf_inject: "valueOf x = Some r \<Longrightarrow> valueOf y = Some r \<Longrightarrow> x = y"
  by transfer (auto split: ieee.splits)

lemma valueOf_ofRat: "roundDouble r = Finite r' \<Longrightarrow> valueOf (ofRat r) = Some r'"
  by transfer simp

lemma valueOf_fixed: "valueOf x = Some r \<Longrightarrow> roundDouble r = Finite r"
  by transfer (auto simp: isDouble_Finite split: ieee.splits)

lemma plus_value: "valueOf x = Some a \<Longrightarrow> valueOf y = Some b \<Longrightarrow> x + y = ofRat (a + b)"
  by transfer (auto split: ieee.splits)

lemma minus_value: "valueOf x = Some a \<Longrightarrow> valueOf y = Some b \<Longrightarrow> x - y = ofRat (a - b)"
  by transfer (auto split: ieee.splits)

lemma valueOf_ofInt: "\<bar>n\<bar> \<le> 2 ^ 53 \<Longrightarrow> valueOf (ofInt n) = Some (of_int n)"
  unfolding ofInt_def by (rule valueOf_ofRat) (rule roundDouble_of_int)

lemma ofInt_zero [simp]: "ofInt 0 = 0"
  unfolding ofInt_def by transfer simp

lemma ofInt_plus:
  assumes "\<bar>a\<bar> \<le> 2 ^ 53" and "\<bar>b\<bar> \<le> 2 ^ 53"
  shows "ofInt a + ofInt b = ofInt (a + b)"
proof -
  have "ofInt a + ofInt b = ofRat (of_int a + of_int b)"
    by (rule plus_value; rule valueOf_ofInt; fact)
  then show ?thesis by (simp add: ofInt_def)
qed

lemma ofInt_minus:
  assumes "\<bar>a\<bar> \<le> 2 ^ 53" and "\<bar>b\<bar> \<le> 2 ^ 53"
  shows "ofInt a - ofInt b = ofInt (a - b)"
proof -
  have "ofInt a - ofInt b = ofRat (of_int a - of_int b)"
    by (rule minus_value; rule valueOf_ofInt; fact)
  then show ?thesis by (simp add: ofInt_def)
qed

lemma ofInt_eq_iff:
  assumes "\<bar>a\<bar> \<le> 2 ^ 53" and "\<bar>b\<bar> \<le> 2 ^ 53"
  shows "ofInt a = ofInt b \<longleftrightarrow> a = b"
proof
  assume "ofInt a = ofInt b"
  then have "valueOf (ofInt a) = valueOf (ofInt b)" by simp
  then show "a = b" using assms by (simp add: valueOf_ofInt)
qed simp

lemma ofInt_eq_zero_iff: "\<bar>a\<bar> \<le> 2 ^ 53 \<Longrightarrow> ofInt a = 0 \<longleftrightarrow> a = 0"
  using ofInt_eq_iff [of a 0] by simp

lemma plus_zero_number [simp]: "x + 0 = (x::number)"
proof (transfer)
  fix x assume "isDouble x"
  then show "ieeeAdd x (Finite 0) = x"
    by (cases x) (simp_all add: isDouble_Finite)
qed

lemma minus_zero_number [simp]: "x - 0 = (x::number)"
proof (transfer)
  fix x assume "isDouble x"
  then show "ieeeSub x (Finite 0) = x"
    by (cases x) (simp_all add: isDouble_Finite)
qed

lemma zero_minus_ofInt: "\<bar>b\<bar> \<le> 2 ^ 53 \<Longrightarrow> 0 - ofInt b = ofInt (- b)"
  using ofInt_minus [of 0 b] by simp

lemma safeInt_iff: "safeInt r \<longleftrightarrow> r \<in> \<int> \<and> \<bar>r\<bar> \<le> 2 ^ 53"
  unfolding safeInt_def by (metis Ints_of_int floor_of_int Ints_cases)

lemma roundDouble_safeInt: "safeInt r \<Longrightarrow> roundDouble r = Finite r"
proof -
  assume "safeInt r"
  then obtain n :: int where r: "r = of_int n" and "\<bar>r\<bar> \<le> 2 ^ 53"
    unfolding safeInt_def by metis
  then have "(of_int \<bar>n\<bar> :: rat) \<le> of_int (2 ^ 53)" by simp
  then have "\<bar>n\<bar> \<le> 2 ^ 53" by (simp only: of_int_le_iff)
  then show ?thesis unfolding r by (rule roundDouble_of_int)
qed

lemma plus_exact:
  "valueOf x = Some a \<Longrightarrow> valueOf y = Some b \<Longrightarrow> safeInt (a + b) \<Longrightarrow>
   valueOf (x + y) = Some (a + b)"
  by (simp add: plus_value valueOf_ofRat roundDouble_safeInt)

lemma minus_exact:
  "valueOf x = Some a \<Longrightarrow> valueOf y = Some b \<Longrightarrow> safeInt (a - b) \<Longrightarrow>
   valueOf (x - y) = Some (a - b)"
  by (simp add: minus_value valueOf_ofRat roundDouble_safeInt)

lemma ofInt_neq: "valueOf x = Some a \<Longrightarrow> valueOf y = Some b \<Longrightarrow> a \<noteq> b \<Longrightarrow> x \<noteq> y"
  by auto

section \<open>Basic facts about the operations\<close>

lemma find_map_same:
  "(\<And>x. p (f x) = p x) \<Longrightarrow> find p (map f xs) = map_option f (find p xs)"
  by (induction xs) auto

lemma find_append_fresh:
  "\<forall>x\<in>set xs. \<not> p x \<Longrightarrow> find p (xs @ ys) = find p ys"
  by (induction xs) auto

lemma mset_sortByDate: "mset (sortByDate txs) = mset txs"
  by (simp add: sortByDate_def)

lemma set_sortByDate: "set (sortByDate txs) = set txs"
  by (simp add: sortByDate_def)

lemma filter_sortByDate: "filter p (sortByDate txs) = sortByDate (filter p txs)"
  by (simp add: sortByDate_def filter_sort)

lemma sortByDate_Nil: "sortByDate [] = []"
  by (simp add: sortByDate_def)

lemma sortByDate_single: "sortByDate [t] = [t]"
  by (simp add: sortByDate_def)

lemma a_id_applyTransaction: "a_id (applyTransaction t acc) = a_id acc"
  by (simp add: applyTransaction_def creditLeg_def)

lemma accounts_addTransaction:
  "accounts (addTransaction nid tx s) = map (applyTransaction (tx\<lparr>t_id := nid\<rparr>)) (accounts s)"
  by (simp add: addTransaction_def setAccounts_def setTransactions_def Let_def)

lemma transactions_addTransaction:
  "transactions (addTransaction nid tx s) = sortByDate (tx\<lparr>t_id := nid\<rparr> # transactions s)"
  by (simp add: addTransaction_def setAccounts_def setTransactions_def Let_def)

lemma others_addTransaction:
  "platforms (addTransaction nid tx s) = platforms s"
  "investments (addTransaction nid tx s) = investments s"
  "receivables (addTransaction nid tx s) = receivables s"
  by (simp_all add: addTransaction_def setAccounts_def setTransactions_def Let_def)

lemma getAccount_addTransaction:
  "getAccount aid (addTransaction nid tx s) =
     map_option (applyTransaction (tx\<lparr>t_id := nid\<rparr>)) (getAccount aid s)"
  by (simp add: getAccount_def accounts_addTransaction find_map_same a_id_applyTransaction)

lemma getAccount_SomeD: "getAccount aid s = Some a \<Longrightarrow> a_id a = aid"
  by (auto simp: getAccount_def find_Some_iff)

section \<open>Operations on a missing entity\<close>

text \<open>
  Claim C8. When no investment has the given id, \<open>deleteInvestment\<close> returns the store
  as it was, and when no receivable has the given id, \<open>markReceivableAsPaid\<close> returns
  the store as it was: none of the five collections changes.
\<close>

theorem missing_entity_noop:
  "(iid \<notin> i_id ` set (investments s) \<longrightarrow> deleteInvestment tid today iid s = s) \<and>
   (rid \<notin> r_id ` set (receivables s) \<longrightarrow> markReceivableAsPaid tid today rid aid s = s)"
proof -
  have "find (\<lambda>inv. i_id inv = iid) (investments s) = None"
    if "iid \<notin> i_id ` set (investments s)"
    using that by (auto simp: find_None_iff)
  moreover have "find (\<lambda>r. r_id r = rid) (receivables s) = None"
    if "rid \<notin> r_id ` set (receivables s)"
    using that by (auto simp: find_None_iff)
  ultimately show ?thesis
    by (simp add: deleteInvestment_def markReceivableAsPaid_def)
qed

theorem missing_entity_noop_witness:
  "''i9'' \<notin> i_id ` set (investments demoStore) \<and>
   deleteInvestment ''t9'' 4 ''i9'' demoStore = demoStore \<and>
   ''r9'' \<notin> r_id ` set (receivables demoStore) \<and>
   markReceivableAsPaid ''t9'' 4 ''r9'' ''A'' demoStore = demoStore"
  using missing_entity_noop [of "''i9''" demoStore "''t9''" 4 "''r9''" "''A''"]
  by (simp add: demoStore_def demoReceivable_def)

section \<open>Paying a receivable that is already paid\<close>



section \<open>Opening an account\<close>

text \<open>
  Claim C2. With an identifier \<open>nid\<close> that no account carries and no transaction
  refers to, \<open>addAccount\<close> leaves an account \<open>nid\<close> whose balance is
  \<open>initialBalance\<close>. When \<open>initialBalance\<close> is not 0 the log gains exactly one
  transaction, an Income of category Saldo Awal and amount \<open>initialBalance\<close> on the new
  account, and it is the only transaction that refers to the account. When
  \<open>initialBalance\<close> is 0 the log is unchanged and the balance is 0.
\<close>

theorem addAccount_opening_balance:
  assumes "nid \<notin> a_id ` set (accounts s)"
    and "\<forall>t\<in>set (transactions s). accountId t \<noteq> nid \<and> toAccountId t \<noteq> Some nid"
  shows
    "(let s' = addAccount nid tid today account initialBalance s;
          opening = \<lparr>t_id = tid, date = today, ttype = Income, accountId = nid,
            toAccountId = None, amount = initialBalance, category = saldoAwal,
            description = ''Saldo awal untuk rekening '' @ a_name account, source = Manual,
            linkedInvestmentId = None, linkedReceivableId = None\<rparr>
      in getAccount nid s' = Some (account\<lparr>a_id := nid, balance := initialBalance\<rparr>) \<and>
         (initialBalance \<noteq> 0 \<longrightarrow>
            mset (transactions s') = add_mset opening (mset (transactions s)) \<and>
            filter (\<lambda>t. accountId t = nid \<or> toAccountId t = Some nid) (transactions s') =
              [opening]) \<and>
         (initialBalance = 0 \<longrightarrow> transactions s' = transactions s))"
proof -
  let ?new = "account\<lparr>a_id := nid, balance := 0\<rparr>"
  let ?s1 = "setAccounts (\<lambda>prev. prev @ [?new]) s"
  let ?o = "\<lparr>t_id = [], date = today, ttype = Income, accountId = nid,
            toAccountId = None, amount = initialBalance, category = saldoAwal,
            description = ''Saldo awal untuk rekening '' @ a_name account, source = Manual,
            linkedInvestmentId = None, linkedReceivableId = None\<rparr>"
  let ?refs = "\<lambda>t. accountId t = nid \<or> toAccountId t = Some nid"
  have zero: "addAccount nid tid today account 0 s = ?s1"
    by (simp add: addAccount_def)
  have nonzero: "addAccount nid tid today account initialBalance s = addTransaction tid ?o ?s1"
    if "initialBalance \<noteq> 0"
    using that by (simp add: addAccount_def)
  have notfound: "\<forall>x\<in>set (accounts s). \<not> a_id x = nid"
    using assms(1) by auto
  have acc1: "getAccount nid ?s1 = Some ?new"
    using find_append_fresh [OF notfound, of "[?new]"]
    by (simp add: getAccount_def setAccounts_def)
  have tx1: "transactions ?s1 = transactions s"
    by (simp add: setAccounts_def)
  have norefs: "filter ?refs (transactions s) = []"
    using assms(2) by (auto simp: filter_empty_conv)
  show ?thesis
  proof (cases "initialBalance = 0")
    case True
    then show ?thesis
      using acc1 tx1 zero by (simp add: Let_def)
  next
    case False
    have a: "getAccount nid (addTransaction tid ?o ?s1) =
        Some (account\<lparr>a_id := nid, balance := initialBalance\<rparr>)"
      by (simp add: getAccount_addTransaction acc1 applyTransaction_def)
    have b: "mset (transactions (addTransaction tid ?o ?s1)) =
        add_mset (?o\<lparr>t_id := tid\<rparr>) (mset (transactions s))"
      by (simp only: transactions_addTransaction mset_sortByDate tx1 mset.simps)
    have c: "filter ?refs (transactions (addTransaction tid ?o ?s1)) = [?o\<lparr>t_id := tid\<rparr>]"
      by (simp add: transactions_addTransaction filter_sortByDate tx1 norefs sortByDate_single)
    show ?thesis
      unfolding Let_def nonzero [OF False] using False a b c by simp
  qed
qed

theorem addAccount_opening_balance_witness:
  "''C'' \<notin> a_id ` set (accounts demoStore) \<and>
   list_all (\<lambda>t. accountId t \<noteq> ''C'' \<and> toAccountId t \<noteq> Some ''C'')
     (transactions demoStore) \<and>
   getAccount ''C'' (addAccount ''C'' ''t5'' 4 (demoAccount []) (ofInt 500) demoStore) =
     Some (demoAccount ''C'') \<and>
   filter (\<lambda>t. accountId t = ''C'' \<or> toAccountId t = Some ''C'')
     (transactions (addAccount ''C'' ''t5'' 4 (demoAccount []) (ofInt 500) demoStore)) =
     [(demoOpening ''t5'' ''C'')\<lparr>date := 4\<rparr>] \<and>
   getAccount ''C'' (addAccount ''C'' ''t5'' 4 (demoAccount []) 0 demoStore) =
     Some ((demoAccount ''C'')\<lparr>balance := 0\<rparr>) \<and>
   transactions (addAccount ''C'' ''t5'' 4 (demoAccount []) 0 demoStore) = transactions demoStore"
proof -
  have h1: "''C'' \<notin> a_id ` set (accounts demoStore)"
    by (simp add: demoStore_def demoAccount_def)
  have h2: "\<forall>t\<in>set (transactions demoStore).
      accountId t \<noteq> ''C'' \<and> toAccountId t \<noteq> Some ''C''"
    by (simp add: demoStore_def demoPayment_def demoLoan_def demoOpening_def)
  show ?thesis
    using addAccount_opening_balance [OF h1 h2, of "''t5''" 4 "demoAccount []" "ofInt 500"]
      addAccount_opening_balance [OF h1 h2, of "''t5''" 4 "demoAccount []" 0] h1 h2
    by (simp add: Let_def demoAccount_def demoOpening_def list_all_iff ofInt_eq_zero_iff)
qed

section \<open>Changing the initial balance of an account\<close>








section \<open>Rounding at work\<close>

text \<open>
  The whole numbers up to \<open>2 ^ 53 = 9007199254740992\<close> are numbers. \<open>2 ^ 53 + 1\<close> is
  not: it lies halfway between the numbers \<open>2 ^ 53\<close> and \<open>2 ^ 53 + 2\<close> and is rounded
  to \<open>2 ^ 53\<close>, whose significand is even.
\<close>

lemma bitlen_one: "bitlen 1 = 1"
  by (simp add: compute_bitlen)

lemma bitlen_big: "bitlen 9007199254740993 = 54"
  by (simp add: compute_bitlen)

lemma exponentOf_big: "exponentOf 9007199254740993 = 53"
  by (simp add: exponentOf_def bitlen_one bitlen_big)

lemma exponentOf_big_neg: "exponentOf (- 9007199254740993) = 53"
  by (simp add: exponentOf_def bitlen_one bitlen_big)

lemma floor_half_big: "\<lfloor>9007199254740993 / 2 :: rat\<rfloor> = 4503599627370496"
  by (rule floor_unique) simp_all

lemma floor_half_big_neg: "\<lfloor>- (9007199254740993 / 2) :: rat\<rfloor> = - 4503599627370497"
  by (rule floor_unique) simp_all

lemma half_big: "roundHalfEven (9007199254740993 / 2) = 4503599627370496"
  by (simp add: roundHalfEven_def Let_def floor_half_big)

lemma half_big_neg: "roundHalfEven (- (9007199254740993 / 2)) = - 4503599627370496"
  by (simp add: roundHalfEven_def Let_def floor_half_big_neg)

lemma roundDouble_past_edge: "roundDouble 9007199254740993 = Finite 9007199254740992"
  by (simp add: roundDouble_def exponentOf_big half_big)

lemma roundDouble_below_neg_edge: "roundDouble (- 9007199254740993) = Finite (- 9007199254740992)"
  by (simp add: roundDouble_def exponentOf_big_neg half_big_neg)

lemma roundDouble_above_edge: "roundDouble 9007199254740994 = Finite 9007199254740994"
  using grid_fixed [of 4503599627370497 1] by simp

subsection \<open>Decimal fractions\<close>

text \<open>
  The model on the familiar case: the literals \<^verbatim>\<open>0.1\<close>, \<^verbatim>\<open>0.2\<close> and \<^verbatim>\<open>0.3\<close> denote
  the numbers nearest to the fractions, and \<^verbatim>\<open>0.1 + 0.2\<close> is the number
  \<^verbatim>\<open>0.30000000000000004\<close>, not the number \<^verbatim>\<open>0.3\<close>.
\<close>

lemma exponentOf_unique:
  assumes "2 powi e \<le> \<bar>x\<bar>" and "\<bar>x\<bar> < 2 powi (e + 1)"
  shows "exponentOf x = e"
proof -
  have x: "x \<noteq> 0"
  proof
    assume "x = 0"
    with assms(1) have "(2::rat) powi e \<le> 0" by simp
    with two_powi_pos [of e] show False by linarith
  qed
  have lo: "2 powi exponentOf x \<le> \<bar>x\<bar>" and hi: "\<bar>x\<bar> < 2 powi (exponentOf x + 1)"
    using exponentOf_bounds [OF x] by simp_all
  have up: "(2::rat) powi e < 2 powi (exponentOf x + 1)"
    using assms(1) hi by simp
  have a: "e < exponentOf x + 1"
  proof (rule ccontr)
    assume "\<not> e < exponentOf x + 1"
    then have "(2::rat) powi (exponentOf x + 1) \<le> 2 powi e"
      by (intro power_int_increasing) simp_all
    with up show False by simp
  qed
  have down: "(2::rat) powi exponentOf x < 2 powi (e + 1)"
    using lo assms(2) by simp
  have "exponentOf x < e + 1"
  proof (rule ccontr)
    assume "\<not> exponentOf x < e + 1"
    then have "(2::rat) powi (e + 1) \<le> 2 powi exponentOf x"
      by (intro power_int_increasing) simp_all
    with down show False by simp
  qed
  with a show ?thesis by simp
qed

lemma roundHalfEven_below:
  "of_int n \<le> q \<Longrightarrow> q < of_int n + 1 / 2 \<Longrightarrow> roundHalfEven q = n"
proof -
  assume a: "of_int n \<le> q" "q < of_int n + 1 / 2"
  then have "\<lfloor>q\<rfloor> = n"
    by (intro floor_unique) simp_all
  then show ?thesis
    using a by (simp add: roundHalfEven_def Let_def)
qed

lemma roundHalfEven_above:
  "of_int n - 1 / 2 < q \<Longrightarrow> q \<le> of_int n \<Longrightarrow> roundHalfEven q = n"
proof (cases "q = of_int n")
  case True
  then show ?thesis by simp
next
  case False
  assume a: "of_int n - 1 / 2 < q" "q \<le> of_int n"
  with False have "\<lfloor>q\<rfloor> = n - 1"
    by (intro floor_unique) simp_all
  then show ?thesis
    using a False by (simp add: roundHalfEven_def Let_def)
qed

lemma roundHalfEven_tie:
  "q = of_int n + 1 / 2 \<Longrightarrow> roundHalfEven q = (if even n then n else n + 1)"
proof -
  assume q: "q = of_int n + 1 / 2"
  then have "\<lfloor>q\<rfloor> = n"
    by (intro floor_unique) simp_all
  then show ?thesis
    using q by (simp add: roundHalfEven_def Let_def)
qed

lemma tenth: "roundDouble (1 / 10) = Finite (3602879701896397 / 36028797018963968)"
proof -
  have e: "exponentOf (1 / 10) = - 4"
    by (rule exponentOf_unique) (simp_all add: power_int_minus)
  have r: "roundHalfEven (36028797018963968 / 5) = 7205759403792794"
    by (rule roundHalfEven_above) simp_all
  show ?thesis
    by (simp add: roundDouble_def e Let_def power_int_minus r)
qed

lemma fifth: "roundDouble (2 / 10) = Finite (3602879701896397 / 18014398509481984)"
proof -
  have e: "exponentOf (1 / 5) = - 3"
    by (rule exponentOf_unique) (simp_all add: power_int_minus)
  have r: "roundHalfEven (36028797018963968 / 5) = 7205759403792794"
    by (rule roundHalfEven_above) simp_all
  show ?thesis
    by (simp add: roundDouble_def e Let_def power_int_minus r)
qed

lemma three_tenths: "roundDouble (3 / 10) = Finite (5404319552844595 / 18014398509481984)"
proof -
  have e: "exponentOf (3 / 10) = - 2"
    by (rule exponentOf_unique) (simp_all add: power_int_minus)
  have r: "roundHalfEven (27021597764222976 / 5) = 5404319552844595"
    by (rule roundHalfEven_below) simp_all
  show ?thesis
    by (simp add: roundDouble_def e Let_def power_int_minus r)
qed

lemma tenth_plus_fifth:
  "roundDouble (3602879701896397 / 36028797018963968 + 3602879701896397 / 18014398509481984) =
   Finite (1351079888211149 / 4503599627370496)"
proof -
  have e: "exponentOf (10808639105689191 / 36028797018963968) = - 2"
    by (rule exponentOf_unique) (simp_all add: power_int_minus)
  have r: "roundHalfEven (10808639105689191 / 2) = 5404319552844596"
    using roundHalfEven_tie [of "10808639105689191 / 2" 5404319552844595] by simp
  show ?thesis
    by (simp add: roundDouble_def e Let_def power_int_minus r)
qed

lemma decimal_sum: "ofRat (1 / 10) + ofRat (2 / 10) \<noteq> ofRat (3 / 10)"
proof -
  have a: "valueOf (ofRat (1 / 10)) = Some (3602879701896397 / 36028797018963968)"
    by (rule valueOf_ofRat) (rule tenth)
  have b: "valueOf (ofRat (2 / 10)) = Some (3602879701896397 / 18014398509481984)"
    by (rule valueOf_ofRat) (rule fifth)
  have "ofRat (1 / 10) + ofRat (2 / 10) =
      ofRat (3602879701896397 / 36028797018963968 + 3602879701896397 / 18014398509481984)"
    using a b by (rule plus_value)
  then have "valueOf (ofRat (1 / 10) + ofRat (2 / 10)) = Some (1351079888211149 / 4503599627370496)"
    by (simp only: valueOf_ofRat [OF tenth_plus_fifth])
  moreover have "valueOf (ofRat (3 / 10)) = Some (5404319552844595 / 18014398509481984)"
    by (rule valueOf_ofRat) (rule three_tenths)
  ultimately show ?thesis
    by (rule ofInt_neq) simp
qed

subsection \<open>Whole numbers\<close>

lemma isWhole_value: "isWhole x \<Longrightarrow> valueOf x = Some (ratOf x)"
  by (auto simp: isWhole_def ratOf_def split: option.splits)

lemma isWhole_Ints: "isWhole x \<Longrightarrow> ratOf x \<in> \<int>"
  by (auto simp: isWhole_def ratOf_def split: option.splits)

lemma valueOf_ratOf: "valueOf x = Some r \<Longrightarrow> ratOf x = r"
  by (simp add: ratOf_def)

lemma ratOf_zero [simp]: "ratOf 0 = 0"
  by (simp add: ratOf_def)

lemma isWhole_zero [simp]: "isWhole 0"
  by (simp add: isWhole_def)

lemma ratOf_ofInt: "\<bar>n\<bar> \<le> 2 ^ 53 \<Longrightarrow> ratOf (ofInt n) = of_int n"
  by (simp add: ratOf_def valueOf_ofInt)

lemma isWhole_ofInt: "\<bar>n\<bar> \<le> 2 ^ 53 \<Longrightarrow> isWhole (ofInt n)"
  by (simp add: isWhole_def valueOf_ofInt)

lemma safeIntI: "r \<in> \<int> \<Longrightarrow> \<bar>r\<bar> \<le> 2 ^ 53 \<Longrightarrow> safeInt r"
  by (simp add: safeInt_iff)

lemma valueOf_bigAmount: "valueOf (ofInt 9007199254740994) = Some 9007199254740994"
  unfolding ofInt_def by (rule valueOf_ofRat) (simp add: roundDouble_above_edge)

lemma one_minus_bigAmount: "ofInt 1 - ofInt 9007199254740994 = ofInt (- 9007199254740992)"
proof -
  have "valueOf (ofInt 1) = Some 1"
    using valueOf_ofInt [of 1] by simp
  then have "ofInt 1 - ofInt 9007199254740994 = ofRat (1 - 9007199254740994)"
    using valueOf_bigAmount by (rule minus_value)
  also have "\<dots> = ofRat (- 9007199254740992)"
    by transfer (simp add: roundDouble_below_neg_edge roundDouble_of_int [of "- 9007199254740992", simplified])
  finally show ?thesis by (simp add: ofInt_def)
qed

lemma bigAmount_back: "ofInt (- 9007199254740992) + ofInt 9007199254740994 = ofInt 2"
proof -
  have "valueOf (ofInt (- 9007199254740992)) = Some (- 9007199254740992)"
    using valueOf_ofInt [of "- 9007199254740992"] by simp
  then have "ofInt (- 9007199254740992) + ofInt 9007199254740994 =
      ofRat (- 9007199254740992 + 9007199254740994)"
    using valueOf_bigAmount by (rule plus_value)
  then show ?thesis by (simp add: ofInt_def)
qed

subsection \<open>The stores at the edge\<close>

lemma unitStore_eq:
  "unitStore =
     \<lparr>accounts = [(demoAccount ''A'')\<lparr>balance := ofInt 1\<rparr>], platforms = [], investments = [],
      transactions = [(demoOpening ''t1'' ''A'')\<lparr>amount := ofInt 1\<rparr>], receivables = []\<rparr>"
  by (simp add: unitStore_def addAccount_def addTransaction_def setAccounts_def
      setTransactions_def emptyStore_def demoAccount_def demoOpening_def sortByDate_def
      applyTransaction_def Let_def ofInt_eq_zero_iff)

lemma edgeStore_eq:
  "edgeStore =
     \<lparr>accounts = [(demoAccount ''A'')\<lparr>balance := ofInt 1\<rparr>, (demoAccount ''B'')\<lparr>balance := 0\<rparr>],
      platforms = [], investments = [],
      transactions = [(demoOpening ''t1'' ''A'')\<lparr>amount := ofInt 1\<rparr>], receivables = []\<rparr>"
  unfolding edgeStore_def unitStore_eq
  by (simp add: addAccount_def setAccounts_def demoAccount_def Let_def)

section \<open>Transfers\<close>

text \<open>
  Claim C3, amended. For two distinct accounts \<open>A\<close> and \<open>B\<close> of the store whose balances
  are whole numbers, adding a Transfer from \<open>A\<close> to \<open>B\<close> of a whole amount, with both
  resulting balances of absolute value at most \<open>2 ^ 53\<close>, lowers the balance of \<open>A\<close> by
  the amount, raises the balance of \<open>B\<close> by the amount and keeps their total; the log
  gains the one record.
\<close>

theorem transfer_between_distinct_accounts:
  assumes "getAccount A s = Some a" and "getAccount B s = Some b" and "A \<noteq> B"
    and "ttype tx = Transfer" and "accountId tx = A" and "toAccountId tx = Some B"
    and "isWhole (balance a)" and "isWhole (balance b)" and "isWhole (amount tx)"
    and "\<bar>ratOf (balance a) - ratOf (amount tx)\<bar> \<le> 2 ^ 53"
    and "\<bar>ratOf (balance b) + ratOf (amount tx)\<bar> \<le> 2 ^ 53"
  shows "transferMoved A B (amount tx) s (addTransaction nid tx s) \<and>
         mset (transactions (addTransaction nid tx s)) =
           add_mset (tx\<lparr>t_id := nid\<rparr>) (mset (transactions s))"
proof -
  have ida: "a_id a = A" and idb: "a_id b = B"
    using assms(1,2) by (auto dest: getAccount_SomeD)
  have a': "getAccount A (addTransaction nid tx s) =
      Some (a\<lparr>balance := balance a - amount tx\<rparr>)"
    using assms(1-6) ida by (simp add: getAccount_addTransaction applyTransaction_def)
  have b': "getAccount B (addTransaction nid tx s) =
      Some (b\<lparr>balance := balance b + amount tx\<rparr>)"
    using assms(1-6) idb
    by (simp add: getAccount_addTransaction applyTransaction_def creditLeg_def)
  have va: "valueOf (balance a) = Some (ratOf (balance a))"
    and vb: "valueOf (balance b) = Some (ratOf (balance b))"
    and vm: "valueOf (amount tx) = Some (ratOf (amount tx))"
    using assms(7-9) by (simp_all add: isWhole_value)
  have "safeInt (ratOf (balance a) - ratOf (amount tx))"
    using assms(7,9,10) by (intro safeIntI Ints_diff isWhole_Ints)
  with va vm have va': "valueOf (balance a - amount tx) =
      Some (ratOf (balance a) - ratOf (amount tx))"
    by (rule minus_exact)
  have "safeInt (ratOf (balance b) + ratOf (amount tx))"
    using assms(8,9,11) by (intro safeIntI Ints_add isWhole_Ints)
  with vb vm have vb': "valueOf (balance b + amount tx) =
      Some (ratOf (balance b) + ratOf (amount tx))"
    by (rule plus_exact)
  have "transferMoved A B (amount tx) s (addTransaction nid tx s)"
    by (simp add: transferMoved_def assms(1,2) a' b' va vb vm va' vb')
  moreover have "mset (transactions (addTransaction nid tx s)) =
      add_mset (tx\<lparr>t_id := nid\<rparr>) (mset (transactions s))"
    by (simp only: transactions_addTransaction mset_sortByDate mset.simps)
  ultimately show ?thesis ..
qed

theorem transfer_between_distinct_accounts_witness:
  "getAccount ''A'' demoStore = Some (demoAccount ''A'') \<and>
   getAccount ''B'' demoStore = Some (demoAccount ''B'') \<and> ''A'' \<noteq> ''B'' \<and>
   ttype demoTransfer = Transfer \<and> accountId demoTransfer = ''A'' \<and>
   toAccountId demoTransfer = Some ''B'' \<and>
   isWhole (balance (demoAccount ''A'')) \<and> isWhole (balance (demoAccount ''B'')) \<and>
   isWhole (amount demoTransfer) \<and>
   \<bar>ratOf (balance (demoAccount ''A'')) - ratOf (amount demoTransfer)\<bar> \<le> 2 ^ 53 \<and>
   \<bar>ratOf (balance (demoAccount ''B'')) + ratOf (amount demoTransfer)\<bar> \<le> 2 ^ 53 \<and>
   transferMoved ''A'' ''B'' (ofInt 100) demoStore (addTransaction ''t5'' demoTransfer demoStore)"
proof -
  have h1: "getAccount ''A'' demoStore = Some (demoAccount ''A'')"
    and h2: "getAccount ''B'' demoStore = Some (demoAccount ''B'')"
    by (simp_all add: getAccount_def demoStore_def demoAccount_def)
  have h3: "''A'' \<noteq> ''B''" by simp
  have h4: "ttype demoTransfer = Transfer" and h5: "accountId demoTransfer = ''A''"
    and h6: "toAccountId demoTransfer = Some ''B''" and h7: "amount demoTransfer = ofInt 100"
    by (simp_all add: demoTransfer_def)
  have w1: "isWhole (balance (demoAccount ''A''))" and w2: "isWhole (balance (demoAccount ''B''))"
    and w3: "isWhole (amount demoTransfer)"
    by (simp_all add: demoAccount_def demoTransfer_def isWhole_ofInt)
  have b1: "\<bar>ratOf (balance (demoAccount ''A'')) - ratOf (amount demoTransfer)\<bar> \<le> 2 ^ 53"
    and b2: "\<bar>ratOf (balance (demoAccount ''B'')) + ratOf (amount demoTransfer)\<bar> \<le> 2 ^ 53"
    by (simp_all add: demoAccount_def demoTransfer_def ratOf_ofInt)
  show ?thesis
    using transfer_between_distinct_accounts [OF h1 h2 h3 h4 h5 h6 w1 w2 w3 b1 b2, of "''t5''"]
      h1 h2 h4 h5 h6 h7 w1 w2 w3 b1 b2
    by simp
qed

text \<open>
  Claim C3 as stated is for every amount. Between account A with balance 1 and account B
  with balance 0, a transfer of \<open>2 ^ 53 + 2\<close> leaves A at \<open>- 2 ^ 53\<close>, since
  \<open>1 - (2 ^ 53 + 2)\<close> is not a JavaScript number and the subtraction rounds it, and
  leaves B at \<open>2 ^ 53 + 2\<close>: A is lowered by one less than the amount and the total
  goes from 1 to 2.
\<close>

theorem transfer_rounding_counterexample:
  "map_option (\<lambda>a. valueOf (balance a)) (getAccount ''A'' edgeStore) = Some (Some 1) \<and>
   map_option (\<lambda>a. valueOf (balance a)) (getAccount ''B'' edgeStore) = Some (Some 0) \<and>
   valueOf (amount bigTransfer) = Some 9007199254740994 \<and>
   map_option (\<lambda>a. valueOf (balance a))
     (getAccount ''A'' (addTransaction ''t3'' bigTransfer edgeStore)) =
     Some (Some (- 9007199254740992)) \<and>
   map_option (\<lambda>a. valueOf (balance a))
     (getAccount ''B'' (addTransaction ''t3'' bigTransfer edgeStore)) =
     Some (Some 9007199254740994) \<and>
   \<not> transferMoved ''A'' ''B'' (amount bigTransfer) edgeStore
       (addTransaction ''t3'' bigTransfer edgeStore)"
proof -
  have ga: "getAccount ''A'' edgeStore = Some ((demoAccount ''A'')\<lparr>balance := ofInt 1\<rparr>)"
    and gb: "getAccount ''B'' edgeStore = Some ((demoAccount ''B'')\<lparr>balance := 0\<rparr>)"
    unfolding edgeStore_eq by (simp_all add: getAccount_def demoAccount_def)
  have ga': "getAccount ''A'' (addTransaction ''t3'' bigTransfer edgeStore) =
      Some ((demoAccount ''A'')\<lparr>balance := ofInt (- 9007199254740992)\<rparr>)"
    unfolding getAccount_addTransaction ga
    by (simp add: applyTransaction_def bigTransfer_def demoAccount_def one_minus_bigAmount)
  have gb': "getAccount ''B'' (addTransaction ''t3'' bigTransfer edgeStore) =
      Some ((demoAccount ''B'')\<lparr>balance := ofInt 9007199254740994\<rparr>)"
    unfolding getAccount_addTransaction gb
    by (simp add: applyTransaction_def creditLeg_def bigTransfer_def demoAccount_def)
  have v1: "valueOf (ofInt 1) = Some 1"
    using valueOf_ofInt [of 1] by simp
  have v2: "valueOf (ofInt (- 9007199254740992)) = Some (- 9007199254740992)"
    using valueOf_ofInt [of "- 9007199254740992"] by simp
  have vm: "valueOf (amount bigTransfer) = Some 9007199254740994"
    by (simp add: bigTransfer_def valueOf_bigAmount)
  show ?thesis
    unfolding transferMoved_def ga gb ga' gb' vm
    by (simp add: v1 v2 valueOf_bigAmount)
qed

section \<open>Creating and deleting an investment\<close>

lemma applyTransaction_refund:
  assumes "ttype e = Expense" and "ttype r = Income" and "accountId r = accountId e"
    and "amount r = amount e"
    and "a_id acc = accountId e \<longrightarrow> balance acc - amount e + amount e = balance acc"
  shows "applyTransaction r (applyTransaction e acc) = acc"
  using assms by (simp add: applyTransaction_def creditLeg_def)

lemma minus_plus_whole:
  assumes "isWhole b" and "isWhole v" and "\<bar>ratOf b\<bar> \<le> 2 ^ 53"
    and "\<bar>ratOf b - ratOf v\<bar> \<le> 2 ^ 53"
  shows "b - v + v = b"
proof -
  have vb: "valueOf b = Some (ratOf b)" and vv: "valueOf v = Some (ratOf v)"
    using assms(1,2) by (simp_all add: isWhole_value)
  have "safeInt (ratOf b - ratOf v)"
    using assms(1,2,4) by (intro safeIntI Ints_diff isWhole_Ints)
  with vb vv have down: "valueOf (b - v) = Some (ratOf b - ratOf v)"
    by (rule minus_exact)
  have "safeInt (ratOf b - ratOf v + ratOf v)"
    using assms(1,3) by (simp add: safeIntI isWhole_Ints)
  with down vv have "valueOf (b - v + v) = Some (ratOf b - ratOf v + ratOf v)"
    by (rule plus_exact)
  then have "valueOf (b - v + v) = Some (ratOf b)"
    by simp
  then show ?thesis
    using vb by (rule valueOf_inject)
qed

text \<open>
  Claim C6, amended. With a fresh investment identifier, a whole initial value, and a
  whole balance of the funding account such that the balance before and the balance
  after the purchase are both of absolute value at most \<open>2 ^ 53\<close>, \<open>addInvestment\<close>
  followed by \<open>deleteInvestment\<close> of the new investment leaves every account, and so the
  balance of the funding account, exactly as it was before the investment.
\<close>

theorem investment_round_trip:
  assumes "nid \<notin> i_id ` set (investments s)"
    and "isWhole (initialValue investment)"
    and "list_all (\<lambda>acc. a_id acc = i_accountId investment \<longrightarrow>
           isWhole (balance acc) \<and> \<bar>ratOf (balance acc)\<bar> \<le> 2 ^ 53 \<and>
           \<bar>ratOf (balance acc) - ratOf (initialValue investment)\<bar> \<le> 2 ^ 53) (accounts s)"
  shows "accounts (deleteInvestment tid2 today nid (addInvestment nid tid1 investment s)) =
         accounts s"
proof -
  let ?new = "investment\<lparr>i_id := nid\<rparr>"
  let ?e = "\<lparr>t_id = [], date = i_date investment, ttype = Expense,
            accountId = i_accountId investment, toAccountId = None,
            amount = initialValue investment, category = ''Investasi'',
            description = ''Modal awal investasi '' @ i_name investment,
            source = Investment, linkedInvestmentId = Some nid,
            linkedReceivableId = None\<rparr>"
  let ?s1 = "addInvestment nid tid1 investment s"
  have s1: "?s1 = addTransaction tid1 ?e (setInvestments (\<lambda>prev. prev @ [?new]) s)"
    by (simp add: addInvestment_def)
  have notfound: "\<forall>x\<in>set (investments s). \<not> i_id x = nid"
    using assms(1) by auto
  have inv1: "investments ?s1 = investments s @ [?new]"
    by (simp add: s1 others_addTransaction setInvestments_def)
  have found: "find (\<lambda>inv. i_id inv = nid) (investments ?s1) = Some ?new"
    unfolding inv1 using find_append_fresh [OF notfound, of "[?new]"] by simp
  have acc1: "accounts ?s1 = map (applyTransaction (?e\<lparr>t_id := tid1\<rparr>)) (accounts s)"
    by (simp add: s1 accounts_addTransaction setInvestments_def)
  let ?r = "\<lparr>t_id = [], date = today, ttype = Income,
                 accountId = i_accountId ?new, toAccountId = None,
                 amount = initialValue ?new,
                 category = ''Pengembalian Investasi'',
                 description = ''Pengembalian modal investasi '' @ i_name ?new,
                 source = Investment, linkedInvestmentId = Some nid,
                 linkedReceivableId = None\<rparr>"
  have acc2: "accounts (deleteInvestment tid2 today nid ?s1) =
      map (applyTransaction (?r\<lparr>t_id := tid2\<rparr>)) (accounts ?s1)"
    by (simp add: deleteInvestment_def found setTransactions_def setInvestments_def
        accounts_addTransaction)
  have "applyTransaction (?r\<lparr>t_id := tid2\<rparr>) (applyTransaction (?e\<lparr>t_id := tid1\<rparr>) acc) = acc"
    if "acc \<in> set (accounts s)" for acc
  proof (rule applyTransaction_refund)
    show "a_id acc = accountId (?e\<lparr>t_id := tid1\<rparr>) \<longrightarrow>
        balance acc - amount (?e\<lparr>t_id := tid1\<rparr>) + amount (?e\<lparr>t_id := tid1\<rparr>) = balance acc"
    proof
      assume "a_id acc = accountId (?e\<lparr>t_id := tid1\<rparr>)"
      then have "a_id acc = i_accountId investment"
        by simp
      with assms(3) that
      have "isWhole (balance acc)" and "\<bar>ratOf (balance acc)\<bar> \<le> 2 ^ 53"
        and "\<bar>ratOf (balance acc) - ratOf (initialValue investment)\<bar> \<le> 2 ^ 53"
        by (auto simp: list_all_iff)
      then have "balance acc - initialValue investment + initialValue investment =
          balance acc"
        using assms(2) by (intro minus_plus_whole)
      then show "balance acc - amount (?e\<lparr>t_id := tid1\<rparr>) + amount (?e\<lparr>t_id := tid1\<rparr>) =
          balance acc"
        by simp
    qed
  qed simp_all
  then show ?thesis
    unfolding acc2 acc1 by (simp add: map_idI)
qed

theorem investment_round_trip_witness:
  "''i1'' \<notin> i_id ` set (investments demoStore) \<and>
   isWhole (initialValue demoInvestment) \<and>
   list_all (\<lambda>acc. isWhole (balance acc) \<and> \<bar>ratOf (balance acc)\<bar> \<le> 2 ^ 53 \<and>
      \<bar>ratOf (balance acc) - ratOf (initialValue demoInvestment)\<bar> \<le> 2 ^ 53)
     (accounts demoStore) \<and>
   accounts (deleteInvestment ''t6'' 5 ''i1'' (addInvestment ''i1'' ''t5'' demoInvestment demoStore))
     = accounts demoStore"
proof -
  have h1: "''i1'' \<notin> i_id ` set (investments demoStore)"
    by (simp add: demoStore_def)
  have h2: "isWhole (initialValue demoInvestment)"
    by (simp add: demoInvestment_def isWhole_ofInt)
  have h3: "list_all (\<lambda>acc. isWhole (balance acc) \<and> \<bar>ratOf (balance acc)\<bar> \<le> 2 ^ 53 \<and>
      \<bar>ratOf (balance acc) - ratOf (initialValue demoInvestment)\<bar> \<le> 2 ^ 53)
     (accounts demoStore)"
    by (simp add: demoStore_def demoAccount_def demoInvestment_def isWhole_ofInt ratOf_ofInt)
  then have h3': "list_all (\<lambda>acc. a_id acc = i_accountId demoInvestment \<longrightarrow>
           isWhole (balance acc) \<and> \<bar>ratOf (balance acc)\<bar> \<le> 2 ^ 53 \<and>
           \<bar>ratOf (balance acc) - ratOf (initialValue demoInvestment)\<bar> \<le> 2 ^ 53)
     (accounts demoStore)"
    by (simp add: list_all_iff)
  show ?thesis
    using investment_round_trip [OF h1 h2 h3', of "''t6''" 5 "''t5''"] h1 h2 h3
    by simp
qed

text \<open>
  Claim C6 as stated is for every initial value. On the account A with balance 1, an
  investment of \<open>2 ^ 53 + 2\<close> takes the balance to \<open>- 2 ^ 53\<close>, the number nearest to
  \<open>1 - (2 ^ 53 + 2)\<close>, and deleting the investment adds \<open>2 ^ 53 + 2\<close> back: the balance
  ends at 2, not at 1.
\<close>

theorem investment_rounding_counterexample:
  "investments unitStore = [] \<and>
   map (\<lambda>a. (a_id a, valueOf (balance a))) (accounts unitStore) = [(''A'', Some 1)] \<and>
   map (\<lambda>a. (a_id a, valueOf (balance a)))
     (accounts (deleteInvestment ''t3'' 3 ''i1'' (addInvestment ''i1'' ''t2'' bigInvestment unitStore)))
     = [(''A'', Some 2)] \<and>
   accounts (deleteInvestment ''t3'' 3 ''i1'' (addInvestment ''i1'' ''t2'' bigInvestment unitStore))
     \<noteq> accounts unitStore"
proof -
  have v1: "valueOf (ofInt 1) = Some 1"
    using valueOf_ofInt [of 1] by simp
  have v2: "valueOf (ofInt 2) = Some 2"
    using valueOf_ofInt [of 2] by simp
  have ne: "ofInt 2 \<noteq> ofInt 1"
    using ofInt_eq_iff [of 2 1] by simp
  define s1 where "s1 = addInvestment ''i1'' ''t2'' bigInvestment unitStore"
  have a1: "accounts s1 = [(demoAccount ''A'')\<lparr>balance := ofInt (- 9007199254740992)\<rparr>]"
    unfolding s1_def unitStore_eq
    by (simp add: addInvestment_def accounts_addTransaction setInvestments_def
        applyTransaction_def bigInvestment_def demoAccount_def one_minus_bigAmount)
  have i1: "investments s1 = [bigInvestment\<lparr>i_id := ''i1''\<rparr>]"
    unfolding s1_def unitStore_eq
    by (simp add: addInvestment_def others_addTransaction setInvestments_def)
  have a2: "accounts (deleteInvestment ''t3'' 3 ''i1'' s1) =
      [(demoAccount ''A'')\<lparr>balance := ofInt 2\<rparr>]"
    by (simp add: deleteInvestment_def i1 setTransactions_def setInvestments_def
        accounts_addTransaction a1 applyTransaction_def creditLeg_def bigInvestment_def
        demoAccount_def bigAmount_back)
  show ?thesis
    unfolding a2 [unfolded s1_def] unfolding unitStore_eq
    by (simp add: v1 v2 ne demoAccount_def)
qed

lemma transactions_deleteInvestment:
  assumes "find (\<lambda>inv. i_id inv = iid) (investments s) = Some iv"
  shows "transactions (deleteInvestment tid today iid s) =
         sortByDate (filter (\<lambda>t. \<not> linkedTo iid t) (transactions s))"
  using assms
  by (simp add: deleteInvestment_def setTransactions_def setInvestments_def
      transactions_addTransaction filter_sortByDate linkedTo_def)

text \<open>
  Claim C7, evaluated. The refund that \<open>deleteInvestment\<close> adds carries the source
  \<open>Investment\<close> and the \<open>linkedInvestmentId\<close> of the investment, so the filter of line
  214 removes it together with the original expense: after adding and deleting an
  investment of 1000 the log is the log from before, without a transaction of category
  Pengembalian Investasi.
\<close>

theorem deleteInvestment_drops_refund:
  "transactions (addInvestment ''i1'' ''t5'' demoInvestment demoStore) =
     \<lparr>t_id = ''t5'', date = 4, ttype = Expense, accountId = ''A'', toAccountId = None,
      amount = ofInt 1000, category = ''Investasi'', description = ''Modal awal investasi Reksadana'',
      source = Investment, linkedInvestmentId = Some ''i1'', linkedReceivableId = None\<rparr>
     # transactions demoStore \<and>
   transactions
     (deleteInvestment ''t6'' 5 ''i1'' (addInvestment ''i1'' ''t5'' demoInvestment demoStore)) =
     transactions demoStore \<and>
   \<not> list_ex (\<lambda>t. category t = ''Pengembalian Investasi'')
     (transactions
       (deleteInvestment ''t6'' 5 ''i1'' (addInvestment ''i1'' ''t5'' demoInvestment demoStore)))"
proof -
  have ivs: "investments (addInvestment ''i1'' ''t5'' demoInvestment demoStore) =
      [demoInvestment\<lparr>i_id := ''i1''\<rparr>]"
    by (simp add: addInvestment_def others_addTransaction setInvestments_def demoStore_def)
  have log: "transactions (addInvestment ''i1'' ''t5'' demoInvestment demoStore) =
     \<lparr>t_id = ''t5'', date = 4, ttype = Expense, accountId = ''A'', toAccountId = None,
      amount = ofInt 1000, category = ''Investasi'', description = ''Modal awal investasi Reksadana'',
      source = Investment, linkedInvestmentId = Some ''i1'', linkedReceivableId = None\<rparr>
     # transactions demoStore"
    by (simp add: addInvestment_def transactions_addTransaction setInvestments_def
        demoStore_def demoInvestment_def sortByDate_def demoPayment_def demoLoan_def
        demoOpening_def)
  have found: "find (\<lambda>inv. i_id inv = ''i1'')
      (investments (addInvestment ''i1'' ''t5'' demoInvestment demoStore)) =
      Some (demoInvestment\<lparr>i_id := ''i1''\<rparr>)"
    unfolding ivs by simp
  have after: "transactions
     (deleteInvestment ''t6'' 5 ''i1'' (addInvestment ''i1'' ''t5'' demoInvestment demoStore)) =
     transactions demoStore"
    unfolding transactions_deleteInvestment [OF found] log
    by (simp add: linkedTo_def demoStore_def sortByDate_def demoPayment_def demoLoan_def
        demoOpening_def)
  show ?thesis
    unfolding after using log
    by (simp add: demoStore_def demoPayment_def demoLoan_def demoOpening_def saldoAwal_def)
qed

section \<open>Invariants of the ledger over sequences of operations\<close>

subsection \<open>The signed sum\<close>

lemma signedSum_Nil: "signedSum [] aid = 0"
  by (simp add: signedSum_def)

lemma signedSum_Cons: "signedSum (t # txs) aid = effect t aid + signedSum txs aid"
  by (simp add: signedSum_def)

lemma signedSum_append: "signedSum (xs @ ys) aid = signedSum xs aid + signedSum ys aid"
  by (simp add: signedSum_def)

lemma signedSum_mset: "mset xs = mset ys \<Longrightarrow> signedSum xs aid = signedSum ys aid"
proof -
  assume "mset xs = mset ys"
  then have "mset (map (\<lambda>t. effect t aid) xs) = mset (map (\<lambda>t. effect t aid) ys)"
    by simp
  then have "sum_mset (mset (map (\<lambda>t. effect t aid) xs)) =
      sum_mset (mset (map (\<lambda>t. effect t aid) ys))"
    by (rule arg_cong)
  then show ?thesis
    unfolding signedSum_def sum_mset_sum_list .
qed

lemma signedSum_sortByDate: "signedSum (sortByDate txs) aid = signedSum txs aid"
  by (rule signedSum_mset) (rule mset_sortByDate)

lemma signedSum_filter:
  "signedSum (filter p txs) aid + signedSum (filter (\<lambda>t. \<not> p t) txs) aid = signedSum txs aid"
  by (induction txs) (simp_all add: signedSum_Nil signedSum_Cons)

lemma signedSum_unreferenced:
  "\<forall>t\<in>set txs. effect t aid = 0 \<Longrightarrow> signedSum txs aid = 0"
  by (induction txs) (simp_all add: signedSum_Nil signedSum_Cons)

lemma effect_t_id: "effect (t\<lparr>t_id := nid\<rparr>) aid = effect t aid"
  by (simp add: effect_def)

lemma effect_Income:
  "ttype t = Income \<Longrightarrow> effect t aid = (if accountId t = aid then ratOf (amount t) else 0)"
  by (simp add: effect_def)

lemma effect_Expense:
  "ttype t = Expense \<Longrightarrow> effect t aid = (if accountId t = aid then - ratOf (amount t) else 0)"
  by (simp add: effect_def)

lemma effect_unreferenced:
  "accountId t \<noteq> aid \<Longrightarrow> toAccountId t \<noteq> Some aid \<Longrightarrow> effect t aid = 0"
  by (simp add: effect_def)

lemma effect_abs: "\<bar>effect t aid\<bar> \<le> \<bar>ratOf (amount t)\<bar>"
  by (simp add: effect_def)

lemma effect_Ints: "isWhole (amount t) \<Longrightarrow> effect t aid \<in> \<int>"
  by (simp add: effect_def isWhole_Ints)

subsection \<open>Logs of whole amounts within the range\<close>

lemma logVolume_Nil: "logVolume [] = 0"
  by (simp add: logVolume_def)

lemma logVolume_Cons: "logVolume (t # txs) = \<bar>ratOf (amount t)\<bar> + logVolume txs"
  by (simp add: logVolume_def)

lemma logVolume_nonneg: "0 \<le> logVolume txs"
  by (induction txs) (simp_all add: logVolume_Nil logVolume_Cons)

lemma logVolume_mset: "mset xs = mset ys \<Longrightarrow> logVolume xs = logVolume ys"
proof -
  assume "mset xs = mset ys"
  then have "mset (map (\<lambda>t. \<bar>ratOf (amount t)\<bar>) xs) = mset (map (\<lambda>t. \<bar>ratOf (amount t)\<bar>) ys)"
    by simp
  then have "sum_mset (mset (map (\<lambda>t. \<bar>ratOf (amount t)\<bar>) xs)) =
      sum_mset (mset (map (\<lambda>t. \<bar>ratOf (amount t)\<bar>) ys))"
    by (rule arg_cong)
  then show ?thesis
    unfolding logVolume_def sum_mset_sum_list .
qed

lemma logVolume_filter:
  "logVolume (filter p txs) + logVolume (filter (\<lambda>t. \<not> p t) txs) = logVolume txs"
  by (induction txs) (simp_all add: logVolume_Nil logVolume_Cons)

lemma logVolume_filter_le: "logVolume (filter p txs) \<le> logVolume txs"
  using logVolume_filter [of p txs] logVolume_nonneg [of "filter (\<lambda>t. \<not> p t) txs"]
  by linarith

lemma logVolume_member: "t \<in> set txs \<Longrightarrow> \<bar>ratOf (amount t)\<bar> \<le> logVolume txs"
proof (induction txs)
  case Nil
  then show ?case by simp
next
  case (Cons u txs)
  show ?case
  proof (cases "t = u")
    case True
    then show ?thesis
      using logVolume_nonneg [of txs] by (simp add: logVolume_Cons)
  next
    case False
    with Cons have "\<bar>ratOf (amount t)\<bar> \<le> logVolume txs" by simp
    then show ?thesis
      by (simp add: logVolume_Cons)
  qed
qed

lemma signedSum_abs: "\<bar>signedSum txs aid\<bar> \<le> logVolume txs"
proof (induction txs)
  case Nil
  then show ?case by (simp add: signedSum_Nil logVolume_Nil)
next
  case (Cons t txs)
  have "\<bar>effect t aid + signedSum txs aid\<bar> \<le> \<bar>effect t aid\<bar> + \<bar>signedSum txs aid\<bar>"
    by (rule abs_triangle_ineq)
  also have "\<dots> \<le> \<bar>ratOf (amount t)\<bar> + logVolume txs"
    using effect_abs [of t aid] Cons.IH by linarith
  finally show ?case
    by (simp add: signedSum_Cons logVolume_Cons)
qed

lemma signedSum_Ints: "list_all (\<lambda>t. isWhole (amount t)) txs \<Longrightarrow> signedSum txs aid \<in> \<int>"
  by (induction txs) (simp_all add: signedSum_Nil signedSum_Cons effect_Ints)

lemma wholeLog_Nil: "wholeLog []"
  by (simp add: wholeLog_def logVolume_Nil)

lemma wholeLog_mset: "mset xs = mset ys \<Longrightarrow> wholeLog xs = wholeLog ys"
proof -
  assume eq: "mset xs = mset ys"
  then have "set xs = set ys"
    by (rule mset_eq_setD)
  then show ?thesis
    by (simp add: wholeLog_def list_all_iff logVolume_mset [OF eq])
qed

lemma wholeLog_sortByDate: "wholeLog (sortByDate txs) = wholeLog txs"
  by (rule wholeLog_mset) (rule mset_sortByDate)

lemma wholeLog_filter: "wholeLog txs \<Longrightarrow> wholeLog (filter p txs)"
  using logVolume_filter_le [of p txs] by (auto simp: wholeLog_def list_all_iff)

lemma wholeLog_ConsD: "wholeLog (t # txs) \<Longrightarrow> isWhole (amount t) \<and> wholeLog txs"
  using abs_ge_zero [of "ratOf (amount t)"]
  by (auto simp: wholeLog_def logVolume_Cons simp del: abs_ge_zero)

lemma wholeLog_member: "wholeLog txs \<Longrightarrow> t \<in> set txs \<Longrightarrow> isWhole (amount t)"
  by (simp add: wholeLog_def list_all_iff)

lemma wholeLog_safe: "wholeLog txs \<Longrightarrow> safeInt (signedSum txs aid)"
proof (rule safeIntI)
  assume w: "wholeLog txs"
  then show "signedSum txs aid \<in> \<int>"
    by (simp add: wholeLog_def signedSum_Ints)
  have "\<bar>signedSum txs aid\<bar> \<le> logVolume txs"
    by (rule signedSum_abs)
  also have "\<dots> < 2 ^ 52"
    using w by (simp add: wholeLog_def)
  finally show "\<bar>signedSum txs aid\<bar> \<le> 2 ^ 53"
    by simp
qed

subsection \<open>The balance after a transaction\<close>

lemma balance_applyTransaction:
  assumes "\<not> (ttype t = Transfer \<and> toAccountId t = Some (accountId t))"
    and "valueOf (balance acc) = Some r" and "isWhole (amount t)"
    and "safeInt (r + effect t (a_id acc))"
  shows "valueOf (balance (applyTransaction t acc)) = Some (r + effect t (a_id acc))"
proof -
  have v: "valueOf (amount t) = Some (ratOf (amount t))"
    using assms(3) by (rule isWhole_value)
  have up: "valueOf (balance acc + amount t) = Some (r + ratOf (amount t))"
    if "safeInt (r + ratOf (amount t))"
    using assms(2) v that by (rule plus_exact)
  have down: "valueOf (balance acc - amount t) = Some (r - ratOf (amount t))"
    if "safeInt (r - ratOf (amount t))"
    using assms(2) v that by (rule minus_exact)
  have down': "valueOf (balance acc - amount t) = Some (r + - ratOf (amount t))"
    if "safeInt (r + - ratOf (amount t))"
    using down that by simp
  show ?thesis
  proof (cases "ttype t")
    case Income
    then show ?thesis
      using assms(2,4)
      by (auto simp: applyTransaction_def creditLeg_def effect_def up split: if_splits)
  next
    case Expense
    then show ?thesis
      using assms(2,4)
      by (auto simp: applyTransaction_def creditLeg_def effect_def down' split: if_splits)
  next
    case Transfer
    then show ?thesis
      using assms(1,2,4)
      by (auto simp: applyTransaction_def creditLeg_def effect_def up down' split: if_splits)
  qed
qed

subsection \<open>Consistency of the balances\<close>

lemma consistent_Nil: "consistent [] txs"
  by (simp add: consistent_def)

lemma consistent_iff:
  "consistent accs txs \<longleftrightarrow>
   (\<forall>acc\<in>set accs. valueOf (balance acc) = Some (signedSum txs (a_id acc)))"
  by (simp add: consistent_def list_all_iff)

lemma consistent_sortByDate: "consistent accs (sortByDate txs) = consistent accs txs"
  by (simp add: consistent_iff signedSum_sortByDate)

lemma consistent_append:
  "consistent (xs @ ys) txs \<longleftrightarrow> consistent xs txs \<and> consistent ys txs"
  by (simp add: consistent_def)

lemma consistent_filter: "consistent accs txs \<Longrightarrow> consistent (filter p accs) txs"
  by (simp add: consistent_iff)

lemma consistent_map:
  assumes "consistent accs txs"
    and "\<And>acc. acc \<in> set accs \<Longrightarrow>
      valueOf (balance acc) = Some (signedSum txs (a_id acc)) \<Longrightarrow>
      a_id (f acc) = a_id acc \<and>
      valueOf (balance (f acc)) = Some (signedSum txs' (a_id acc))"
  shows "consistent (map f accs) txs'"
  unfolding consistent_iff
proof
  fix b assume "b \<in> set (map f accs)"
  then obtain acc where acc: "acc \<in> set accs" and b: "b = f acc"
    unfolding set_map by (auto elim: imageE)
  have "valueOf (balance acc) = Some (signedSum txs (a_id acc))"
    using assms(1) acc by (simp add: consistent_iff)
  with assms(2) [OF acc] show "valueOf (balance b) = Some (signedSum txs' (a_id b))"
    unfolding b by simp
qed

lemma consistent_add:
  assumes "consistent accs txs"
    and "\<not> (ttype t = Transfer \<and> toAccountId t = Some (accountId t))"
    and "wholeLog (t # txs)"
  shows "consistent (map (applyTransaction t) accs) (t # txs)"
  using assms(1)
proof (rule consistent_map)
  fix acc :: account
  assume b: "valueOf (balance acc) = Some (signedSum txs (a_id acc))"
  have "safeInt (signedSum (t # txs) (a_id acc))"
    using assms(3) by (rule wholeLog_safe)
  then have "safeInt (signedSum txs (a_id acc) + effect t (a_id acc))"
    by (simp add: signedSum_Cons add.commute)
  with assms(2) b have "valueOf (balance (applyTransaction t acc)) =
      Some (signedSum txs (a_id acc) + effect t (a_id acc))"
    using wholeLog_ConsD [OF assms(3)] by (intro balance_applyTransaction) simp_all
  then show "a_id (applyTransaction t acc) = a_id acc \<and>
      valueOf (balance (applyTransaction t acc)) = Some (signedSum (t # txs) (a_id acc))"
    by (simp add: a_id_applyTransaction signedSum_Cons add.commute)
qed

subsection \<open>Opening-balance transactions\<close>

lemma uniqueOpenings_sortByDate: "uniqueOpenings (sortByDate txs) = uniqueOpenings txs"
proof -
  have "mset (map accountId (filter isOpening (sortByDate txs))) =
      mset (map accountId (filter isOpening txs))"
    by (simp add: mset_sortByDate)
  then show ?thesis
    unfolding uniqueOpenings_def by (rule mset_eq_imp_distinct_iff)
qed

lemma uniqueOpenings_filter: "uniqueOpenings txs \<Longrightarrow> uniqueOpenings (filter p txs)"
proof -
  assume "uniqueOpenings txs"
  then have "distinct (map accountId (filter p (filter isOpening txs)))"
    unfolding uniqueOpenings_def by (rule distinct_map_filter)
  moreover have "filter p (filter isOpening txs) = filter isOpening (filter p txs)"
    by (simp add: conj_commute)
  ultimately show ?thesis by (simp add: uniqueOpenings_def)
qed

lemma uniqueOpenings_Cons_other:
  "\<not> isOpening t \<Longrightarrow> uniqueOpenings (t # txs) = uniqueOpenings txs"
  by (simp add: uniqueOpenings_def)

lemma uniqueOpenings_Cons_opening:
  assumes "uniqueOpenings txs" and "\<forall>u\<in>set txs. isOpening u \<longrightarrow> accountId u \<noteq> accountId t"
  shows "uniqueOpenings (t # txs)"
  using assms by (auto simp: uniqueOpenings_def)

lemma incomeOpenings_iff:
  "incomeOpenings txs \<longleftrightarrow> (\<forall>t\<in>set txs. isOpening t \<longrightarrow> ttype t = Income)"
  by (simp add: incomeOpenings_def list_all_iff)

lemma incomeOpenings_sortByDate: "incomeOpenings (sortByDate txs) = incomeOpenings txs"
  by (simp add: incomeOpenings_iff set_sortByDate)

lemma incomeOpenings_filter: "incomeOpenings txs \<Longrightarrow> incomeOpenings (filter p txs)"
  by (simp add: incomeOpenings_iff)

lemma incomeOpenings_Cons:
  "incomeOpenings (t # txs) \<longleftrightarrow> (isOpening t \<longrightarrow> ttype t = Income) \<and> incomeOpenings txs"
  by (simp add: incomeOpenings_def)

lemma isInitialTx_iff: "isInitialTx aid t \<longleftrightarrow> accountId t = aid \<and> isOpening t"
  by (simp add: isInitialTx_def isOpening_def)

text \<open>The openings of an account contribute the amount of the first of them, if unique.\<close>

lemma openings_of_other_account:
  assumes "incomeOpenings txs" and "\<forall>t\<in>set txs. isOpening t \<longrightarrow> accountId t \<noteq> aid"
  shows "signedSum (filter isOpening txs) aid = 0"
proof (rule signedSum_unreferenced, rule ballI)
  fix t assume "t \<in> set (filter isOpening txs)"
  then have "t \<in> set txs" "isOpening t" by simp_all
  then have "ttype t = Income" "accountId t \<noteq> aid"
    using assms by (simp_all add: incomeOpenings_iff)
  then show "effect t aid = 0" by (simp add: effect_Income)
qed

lemma signedSum_openings:
  assumes "incomeOpenings txs" and "uniqueOpenings txs"
  shows "signedSum (filter isOpening txs) aid =
         (case find (isInitialTx aid) txs of Some t \<Rightarrow> ratOf (amount t) | None \<Rightarrow> 0)"
  using assms
proof (induction txs)
  case Nil
  then show ?case by (simp add: signedSum_Nil)
next
  case (Cons t txs)
  have inc: "incomeOpenings txs" and ty: "isOpening t \<longrightarrow> ttype t = Income"
    using Cons.prems(1) by (simp_all add: incomeOpenings_Cons)
  show ?case
  proof (cases "isOpening t")
    case False
    then have "uniqueOpenings txs"
      using Cons.prems(2) by (simp add: uniqueOpenings_Cons_other)
    with Cons.IH inc False show ?thesis
      by (simp add: isInitialTx_iff)
  next
    case True
    then have uniq: "uniqueOpenings txs"
      and notin: "accountId t \<notin> set (map accountId (filter isOpening txs))"
      using Cons.prems(2) by (simp_all add: uniqueOpenings_def)
    have other: "\<forall>u\<in>set txs. isOpening u \<longrightarrow> accountId u \<noteq> accountId t"
    proof (intro ballI impI)
      fix u assume "u \<in> set txs" "isOpening u"
      then have "accountId u \<in> set (map accountId (filter isOpening txs))" by simp
      with notin show "accountId u \<noteq> accountId t" by metis
    qed
    show ?thesis
    proof (cases "accountId t = aid")
      case same: True
      have "signedSum (filter isOpening txs) aid = 0"
        using inc other same by (intro openings_of_other_account) auto
      then show ?thesis
        using True same ty
        by (simp add: signedSum_Cons effect_Income isInitialTx_iff)
    next
      case diff: False
      then show ?thesis
        using True ty Cons.IH [OF inc uniq]
        by (simp add: signedSum_Cons effect_Income isInitialTx_iff)
    qed
  qed
qed

subsection \<open>The replay of \<open>deleteReceivable\<close>\<close>

lemma replayStep_value:
  assumes "valueOf b = Some r" and "r \<in> \<int>" and "isWhole (amount t)"
    and "\<bar>r\<bar> + \<bar>ratOf (amount t)\<bar> \<le> 2 ^ 53"
  shows "valueOf (replayStep aid b t) = Some (r + effect t aid)"
proof -
  let ?v = "ratOf (amount t)"
  have v: "valueOf (amount t) = Some ?v"
    using assms(3) by (rule isWhole_value)
  have vi: "?v \<in> \<int>"
    using assms(3) by (rule isWhole_Ints)
  have "\<bar>r + ?v\<bar> \<le> \<bar>r\<bar> + \<bar>?v\<bar>"
    by (rule abs_triangle_ineq)
  with assms(4) have "safeInt (r + ?v)"
    using assms(2) vi by (intro safeIntI Ints_add) simp_all
  with assms(1) v have up: "valueOf (b + amount t) = Some (r + ?v)"
    by (rule plus_exact)
  have "\<bar>r - ?v\<bar> \<le> \<bar>r\<bar> + \<bar>?v\<bar>"
    by (rule abs_triangle_ineq4)
  with assms(4) have "safeInt (r - ?v)"
    using assms(2) vi by (intro safeIntI Ints_diff) simp_all
  with assms(1) v have down: "valueOf (b - amount t) = Some (r - ?v)"
    by (rule minus_exact)
  have "safeInt (r - ?v + ?v)"
    using assms(2,4) by (intro safeIntI) simp_all
  with down v have "valueOf (b - amount t + amount t) = Some (r - ?v + ?v)"
    by (rule plus_exact)
  then have restored: "valueOf (b - amount t + amount t) = Some r"
    by simp
  show ?thesis
    by (cases "ttype t")
      (simp_all add: replayStep_def effect_def Let_def assms(1) up down restored)
qed

lemma foldl_replayStep:
  assumes "valueOf b = Some r" and "r \<in> \<int>" and "list_all (\<lambda>t. isWhole (amount t)) txs"
    and "\<bar>r\<bar> + logVolume txs \<le> 2 ^ 53"
  shows "valueOf (foldl (replayStep aid) b txs) = Some (r + signedSum txs aid)"
  using assms
proof (induction txs arbitrary: b r)
  case Nil
  then show ?case by (simp add: signedSum_Nil)
next
  case (Cons t txs)
  have w: "isWhole (amount t)" and ws: "list_all (\<lambda>t. isWhole (amount t)) txs"
    using Cons.prems(3) by simp_all
  have bound: "\<bar>r\<bar> + \<bar>ratOf (amount t)\<bar> + logVolume txs \<le> 2 ^ 53"
    using Cons.prems(4) by (simp add: logVolume_Cons)
  then have "\<bar>r\<bar> + \<bar>ratOf (amount t)\<bar> \<le> 2 ^ 53"
    using logVolume_nonneg [of txs] by linarith
  with Cons.prems(1,2) w
  have step: "valueOf (replayStep aid b t) = Some (r + effect t aid)"
    by (rule replayStep_value)
  have int: "r + effect t aid \<in> \<int>"
    using Cons.prems(2) w by (simp add: effect_Ints)
  have "\<bar>r + effect t aid\<bar> \<le> \<bar>r\<bar> + \<bar>effect t aid\<bar>"
    by (rule abs_triangle_ineq)
  then have "\<bar>r + effect t aid\<bar> + logVolume txs \<le> 2 ^ 53"
    using bound effect_abs [of t aid] by linarith
  with step int ws
  have "valueOf (foldl (replayStep aid) (replayStep aid b t) txs) =
      Some (r + effect t aid + signedSum txs aid)"
    by (rule Cons.IH)
  then show ?case
    by (simp add: signedSum_Cons add.assoc)
qed

lemma a_id_recomputeBalance: "a_id (recomputeBalance txs acc) = a_id acc"
  by (simp add: recomputeBalance_def Let_def)

lemma find_member: "find p xs = Some x \<Longrightarrow> x \<in> set xs \<and> p x"
  by (induction xs) (auto split: if_splits)

lemma balance_recomputeBalance:
  assumes "incomeOpenings txs" and "uniqueOpenings txs" and "wholeLog txs"
  shows "valueOf (balance (recomputeBalance txs acc)) = Some (signedSum txs (a_id acc))"
proof -
  let ?aid = "a_id acc"
  let ?rest = "filter (\<lambda>t. \<not> isOpening t) txs"
  define b0 where "b0 = (case find (isInitialTx ?aid) txs of Some t \<Rightarrow> amount t | None \<Rightarrow> 0)"
  define r0 where
    "r0 = (case find (isInitialTx ?aid) txs of Some t \<Rightarrow> ratOf (amount t) | None \<Rightarrow> 0)"
  have whole: "list_all (\<lambda>t. isWhole (amount t)) txs" and vol: "logVolume txs < 2 ^ 52"
    using assms(3) by (simp_all add: wholeLog_def)
  have facts: "valueOf b0 = Some r0 \<and> r0 \<in> \<int> \<and> \<bar>r0\<bar> \<le> logVolume (filter isOpening txs)"
  proof (cases "find (isInitialTx ?aid) txs")
    case None
    then show ?thesis
      by (simp add: b0_def r0_def logVolume_nonneg)
  next
    case (Some t)
    then have mem: "t \<in> set txs" and op: "isOpening t"
      using find_member [of "isInitialTx ?aid" txs t] by (simp_all add: isInitialTx_iff)
    then have "isWhole (amount t)"
      using whole by (simp add: list_all_iff)
    moreover have "\<bar>ratOf (amount t)\<bar> \<le> logVolume (filter isOpening txs)"
      using mem op by (intro logVolume_member) simp
    ultimately show ?thesis
      using Some by (simp add: b0_def r0_def isWhole_value isWhole_Ints)
  qed
  have "\<bar>r0\<bar> + logVolume ?rest \<le> logVolume txs"
    using facts logVolume_filter [of isOpening txs] by linarith
  moreover have "(2::rat) ^ 52 \<le> 2 ^ 53"
    by simp
  ultimately have bound: "\<bar>r0\<bar> + logVolume ?rest \<le> 2 ^ 53"
    using vol by linarith
  have "list_all (\<lambda>t. isWhole (amount t)) ?rest"
    using whole by (simp add: list_all_iff)
  with facts bound
  have "valueOf (foldl (replayStep ?aid) b0 ?rest) = Some (r0 + signedSum ?rest ?aid)"
    by (intro foldl_replayStep) simp_all
  moreover have "r0 = signedSum (filter isOpening txs) ?aid"
    unfolding r0_def by (rule signedSum_openings [OF assms(1,2), symmetric])
  moreover have "balance (recomputeBalance txs acc) = foldl (replayStep ?aid) b0 ?rest"
    by (simp add: recomputeBalance_def Let_def b0_def isOpening_def [abs_def])
  ultimately show ?thesis
    by (simp add: signedSum_filter)
qed

lemma consistent_recompute:
  assumes "incomeOpenings txs" and "uniqueOpenings txs" and "wholeLog txs"
  shows "consistent (map (recomputeBalance txs) accs) txs"
  by (simp add: consistent_def list_all_iff a_id_recomputeBalance
      balance_recomputeBalance [OF assms])

subsection \<open>Investments and their linked transactions\<close>

lemma sortByDate_eq_Nil: "sortByDate xs = [] \<longleftrightarrow> xs = []"
  by (metis mset_sortByDate mset_zero_iff sortByDate_Nil)

lemma sortByDate_eq_single: "sortByDate xs = [t] \<longleftrightarrow> xs = [t]"
proof
  assume "sortByDate xs = [t]"
  then have "mset xs = {#t#}"
    by (metis mset_sortByDate mset.simps(1) mset.simps(2))
  then show "xs = [t]" by (simp add: mset_single_iff_right)
next
  assume "xs = [t]"
  then show "sortByDate xs = [t]" by (simp add: sortByDate_single)
qed

lemma find_append:
  "find p (xs @ ys) = (case find p xs of None \<Rightarrow> find p ys | Some x \<Rightarrow> Some x)"
  by (induction xs) auto

lemma find_filter_same:
  "(\<And>x. p x \<Longrightarrow> q x) \<Longrightarrow> find p (filter q xs) = find p xs"
  by (induction xs) auto

lemma find_filter_none: "(\<And>x. q x \<Longrightarrow> \<not> p x) \<Longrightarrow> find p (filter q xs) = None"
  by (induction xs) auto

lemma linkedTo_same: "linkedTo i t \<Longrightarrow> linkedTo j t \<Longrightarrow> i = j"
  by (simp add: linkedTo_def)

lemma investmentsLinked_cong:
  assumes "\<And>iid. filter (linkedTo iid) txs' = filter (linkedTo iid) txs"
  shows "investmentsLinked ivs txs' = investmentsLinked ivs txs"
  unfolding investmentsLinked_def assms ..

lemma investmentsLinked_sortByDate:
  "investmentsLinked ivs (sortByDate txs) = investmentsLinked ivs txs"
  unfolding investmentsLinked_def filter_sortByDate sortByDate_eq_Nil sortByDate_eq_single ..

lemma investmentsLinked_Cons_unlinked:
  assumes "\<And>iid. \<not> linkedTo iid t"
  shows "investmentsLinked ivs (t # txs) = investmentsLinked ivs txs"
  by (rule investmentsLinked_cong) (simp add: assms)

lemma investmentsLinked_None:
  "investmentsLinked ivs txs \<Longrightarrow> find (\<lambda>iv. i_id iv = iid) ivs = None \<Longrightarrow>
   filter (linkedTo iid) txs = []"
  unfolding investmentsLinked_def by (drule spec [of _ iid]) simp

lemma investmentsLinked_Some:
  "investmentsLinked ivs txs \<Longrightarrow> find (\<lambda>iv. i_id iv = iid) ivs = Some iv \<Longrightarrow>
   \<exists>t. filter (linkedTo iid) txs = [t] \<and> outflowOf iv t"
  unfolding investmentsLinked_def by (drule spec [of _ iid]) simp

lemma linked_is_outflow:
  assumes "investmentsLinked ivs txs" and "t \<in> set txs" and "linkedTo iid t"
  shows "\<exists>iv. outflowOf iv t"
proof (cases "find (\<lambda>iv. i_id iv = iid) ivs")
  case None
  from investmentsLinked_None [OF assms(1) None] assms(2,3) show ?thesis
    by (simp add: filter_empty_conv)
next
  case (Some iv)
  from investmentsLinked_Some [OF assms(1) Some]
  obtain u where u: "filter (linkedTo iid) txs = [u]" and o: "outflowOf iv u" by blast
  have "t \<in> set (filter (linkedTo iid) txs)" using assms(2,3) by simp
  then have "t = u" unfolding u by simp
  with o show ?thesis by blast
qed

lemma opening_not_linked:
  assumes "investmentsLinked ivs txs" and "t \<in> set txs" and "isOpening t"
  shows "\<not> linkedTo iid t"
proof
  assume "linkedTo iid t"
  from linked_is_outflow [OF assms(1,2) this] assms(3) show False
    by (simp add: outflowOf_def)
qed

lemma investmentsLinked_filter:
  assumes "investmentsLinked ivs txs" and "\<And>iv t. outflowOf iv t \<Longrightarrow> p t"
  shows "investmentsLinked ivs (filter p txs)"
proof (rule investmentsLinked_cong [THEN iffD2, OF _ assms(1)])
  fix iid
  have "filter p (filter (linkedTo iid) txs) = filter (linkedTo iid) txs"
  proof (rule filter_True, rule ballI)
    fix t assume "t \<in> set (filter (linkedTo iid) txs)"
    then have "t \<in> set txs" "linkedTo iid t" by simp_all
    from linked_is_outflow [OF assms(1) this] assms(2) show "p t" by blast
  qed
  moreover have "filter (linkedTo iid) (filter p txs) = filter p (filter (linkedTo iid) txs)"
    by (simp add: conj_commute)
  ultimately show "filter (linkedTo iid) (filter p txs) = filter (linkedTo iid) txs"
    by simp
qed

lemma investmentsLinked_add:
  assumes "investmentsLinked ivs txs" and "find (\<lambda>iv. i_id iv = nid) ivs = None"
    and "i_id new = nid" and "linkedTo nid t" and "outflowOf new t"
  shows "investmentsLinked (ivs @ [new]) (t # txs)"
  unfolding investmentsLinked_def
proof
  fix iid
  show "case find (\<lambda>iv. i_id iv = iid) (ivs @ [new]) of
      None \<Rightarrow> filter (linkedTo iid) (t # txs) = []
    | Some iv \<Rightarrow> \<exists>u. filter (linkedTo iid) (t # txs) = [u] \<and> outflowOf iv u"
  proof (cases "iid = nid")
    case True
    have "filter (linkedTo nid) txs = []"
      using assms(1,2) by (rule investmentsLinked_None)
    then show ?thesis
      using True assms(2-5) by (simp add: find_append)
  next
    case False
    then have nl: "\<not> linkedTo iid t"
      using assms(4) linkedTo_same by blast
    have eq: "find (\<lambda>iv. i_id iv = iid) (ivs @ [new]) = find (\<lambda>iv. i_id iv = iid) ivs"
      using False assms(3) by (simp add: find_append split: option.splits)
    show ?thesis
    proof (cases "find (\<lambda>iv. i_id iv = iid) ivs")
      case None
      with investmentsLinked_None [OF assms(1) None] nl show ?thesis
        unfolding eq by simp
    next
      case (Some iv)
      with investmentsLinked_Some [OF assms(1) Some] nl show ?thesis
        unfolding eq by simp
    qed
  qed
qed

lemma investmentsLinked_map:
  assumes "investmentsLinked ivs txs"
    and "\<And>iv. i_id (f iv) = i_id iv \<and> i_accountId (f iv) = i_accountId iv \<and>
      initialValue (f iv) = initialValue iv"
  shows "investmentsLinked (map f ivs) txs"
  unfolding investmentsLinked_def
proof
  fix iid
  have f: "find (\<lambda>iv. i_id iv = iid) (map f ivs) = map_option f (find (\<lambda>iv. i_id iv = iid) ivs)"
    by (rule find_map_same) (simp add: assms(2))
  have o: "outflowOf (f iv) t = outflowOf iv t" for iv t
    by (simp add: outflowOf_def assms(2))
  show "case find (\<lambda>iv. i_id iv = iid) (map f ivs) of
      None \<Rightarrow> filter (linkedTo iid) txs = []
    | Some iv \<Rightarrow> \<exists>u. filter (linkedTo iid) txs = [u] \<and> outflowOf iv u"
  proof (cases "find (\<lambda>iv. i_id iv = iid) ivs")
    case None
    with investmentsLinked_None [OF assms(1) None] show ?thesis
      unfolding f by simp
  next
    case (Some iv)
    with investmentsLinked_Some [OF assms(1) Some] show ?thesis
      unfolding f by (simp add: o)
  qed
qed

lemma investmentsLinked_delete:
  assumes "investmentsLinked ivs txs"
  shows "investmentsLinked (filter (\<lambda>iv. i_id iv \<noteq> iid) ivs)
           (filter (\<lambda>t. \<not> linkedTo iid t) txs)"
  unfolding investmentsLinked_def
proof
  fix j
  show "case find (\<lambda>iv. i_id iv = j) (filter (\<lambda>iv. i_id iv \<noteq> iid) ivs) of
      None \<Rightarrow> filter (linkedTo j) (filter (\<lambda>t. \<not> linkedTo iid t) txs) = []
    | Some iv \<Rightarrow>
        \<exists>u. filter (linkedTo j) (filter (\<lambda>t. \<not> linkedTo iid t) txs) = [u] \<and> outflowOf iv u"
  proof (cases "j = iid")
    case True
    have "find (\<lambda>iv. i_id iv = j) (filter (\<lambda>iv. i_id iv \<noteq> iid) ivs) = None"
      by (rule find_filter_none) (simp add: True)
    moreover have "filter (linkedTo j) (filter (\<lambda>t. \<not> linkedTo iid t) txs) = []"
      by (simp add: True filter_empty_conv)
    ultimately show ?thesis by simp
  next
    case False
    have "find (\<lambda>iv. i_id iv = j) (filter (\<lambda>iv. i_id iv \<noteq> iid) ivs) =
        find (\<lambda>iv. i_id iv = j) ivs"
      by (rule find_filter_same) (simp add: False)
    moreover have "filter (linkedTo j) (filter (\<lambda>t. \<not> linkedTo iid t) txs) =
        filter (linkedTo j) txs"
      unfolding filter_filter
      by (rule filter_cong [OF refl]) (use False linkedTo_same in blast)
    ultimately have eq: "find (\<lambda>iv. i_id iv = j) (filter (\<lambda>iv. i_id iv \<noteq> iid) ivs) =
        find (\<lambda>iv. i_id iv = j) ivs"
      "filter (linkedTo j) (filter (\<lambda>t. \<not> linkedTo iid t) txs) = filter (linkedTo j) txs"
      by simp_all
    show ?thesis
    proof (cases "find (\<lambda>iv. i_id iv = j) ivs")
      case None
      with investmentsLinked_None [OF assms None] show ?thesis
        unfolding eq by simp
    next
      case (Some iv)
      with investmentsLinked_Some [OF assms Some] show ?thesis
        unfolding eq by simp
    qed
  qed
qed

subsection \<open>The log after each operation\<close>

lemma findIndex_split:
  "findIndex p xs = Some i \<Longrightarrow>
   \<exists>ys zs. xs = ys @ (xs ! i) # zs \<and> length ys = i \<and> p (xs ! i) \<and> (\<forall>y\<in>set ys. \<not> p y)"
proof (induction xs arbitrary: i)
  case Nil
  then show ?case by simp
next
  case (Cons x xs)
  show ?case
  proof (cases "p x")
    case True
    with Cons.prems have "i = 0" by simp
    with True show ?thesis by (intro exI [of _ "[]"] exI [of _ xs]) simp
  next
    case False
    with Cons.prems obtain j where j: "findIndex p xs = Some j" and i: "i = Suc j"
      by auto
    from Cons.IH [OF j] obtain ys zs where
      "xs = ys @ (xs ! j) # zs" "length ys = j" "p (xs ! j)" "\<forall>y\<in>set ys. \<not> p y"
      by blast
    with False i show ?thesis
      by (intro exI [of _ "x # ys"] exI [of _ zs]) simp
  qed
qed

lemma findIndex_None: "findIndex p xs = None \<Longrightarrow> \<forall>x\<in>set xs. \<not> p x"
  by (induction xs) (auto split: if_splits)

lemma splice1_middle: "splice1 (length ys) (ys @ t # zs) = ys @ zs"
  by (simp add: splice1_def)

text \<open>The two ways in which \<open>updateAccount\<close> finds the log, and what it leaves.\<close>

lemma updateAccount_cases:
  fixes s tid today upd new
  defines "s' \<equiv> updateAccount tid today upd new s"
  obtains (found) ys t zs where "transactions s = ys @ t # zs" and "isInitialTx (a_id upd) t"
      and "transactions s' =
        sortByDate (if new = 0 then ys @ zs else ys @ t\<lparr>amount := new\<rparr> # zs)"
      and "accounts s' = map (patchAccount upd (new - amount t)) (accounts s)"
      and "investments s' = investments s"
    | (absent) "\<forall>u\<in>set (transactions s). \<not> isInitialTx (a_id upd) u"
      and "transactions s' =
        sortByDate (if new \<noteq> 0
          then \<lparr>t_id = tid, date = today, ttype = Income, accountId = a_id upd,
                 toAccountId = None, amount = new, category = saldoAwal,
                 description = ''Saldo awal untuk rekening '' @ a_name upd,
                 source = Manual, linkedInvestmentId = None,
                 linkedReceivableId = None\<rparr> # transactions s
          else transactions s)"
      and "accounts s' = map (patchAccount upd new) (accounts s)"
      and "investments s' = investments s"
proof (cases "findIndex (isInitialTx (a_id upd)) (transactions s)")
  case None
  have "\<forall>u\<in>set (transactions s). \<not> isInitialTx (a_id upd) u"
    using None by (rule findIndex_None)
  moreover have "transactions s' =
        sortByDate (if new \<noteq> 0
          then \<lparr>t_id = tid, date = today, ttype = Income, accountId = a_id upd,
                 toAccountId = None, amount = new, category = saldoAwal,
                 description = ''Saldo awal untuk rekening '' @ a_name upd,
                 source = Manual, linkedInvestmentId = None,
                 linkedReceivableId = None\<rparr> # transactions s
          else transactions s)"
    unfolding s'_def
    by (simp add: updateAccount_def Let_def setAccounts_def setTransactions_def None)
  moreover have "accounts s' = map (patchAccount upd new) (accounts s)"
    unfolding s'_def patchAccount_def [abs_def]
    by (simp add: updateAccount_def Let_def setAccounts_def setTransactions_def None)
  moreover have "investments s' = investments s"
    unfolding s'_def
    by (simp add: updateAccount_def Let_def setAccounts_def setTransactions_def)
  ultimately show ?thesis by (rule absent)
next
  case (Some i)
  from findIndex_split [OF Some] obtain ys zs where
    split: "transactions s = ys @ (transactions s ! i) # zs" and len: "length ys = i"
    and p: "isInitialTx (a_id upd) (transactions s ! i)"
    by blast
  let ?t = "transactions s ! i"
  have upd: "(transactions s)[i := v] = ys @ v # zs" for v
    by (subst split) (simp add: len [symmetric])
  have spl: "splice1 i (transactions s) = ys @ zs"
    by (subst split) (simp add: len [symmetric] splice1_middle)
  have "transactions s' =
        sortByDate (if new = 0 then ys @ zs else ys @ ?t\<lparr>amount := new\<rparr> # zs)"
    unfolding s'_def
    by (simp add: updateAccount_def Let_def setAccounts_def setTransactions_def Some upd spl)
  moreover have "accounts s' = map (patchAccount upd (new - amount ?t)) (accounts s)"
    unfolding s'_def patchAccount_def [abs_def]
    by (simp add: updateAccount_def Let_def setAccounts_def setTransactions_def Some)
  moreover have "investments s' = investments s"
    unfolding s'_def
    by (simp add: updateAccount_def Let_def setAccounts_def setTransactions_def)
  ultimately show ?thesis using split p by (intro found [of ys ?t zs])
qed

lemma investments_addTransaction: "investments (addTransaction nid tx s) = investments s"
  by (rule others_addTransaction)

lemma addAccount_shape:
  "accounts (addAccount nid tid today account init s) =
     (if init \<noteq> 0
      then map (applyTransaction
             \<lparr>t_id = tid, date = today, ttype = Income, accountId = nid, toAccountId = None,
              amount = init, category = saldoAwal,
              description = ''Saldo awal untuk rekening '' @ a_name account, source = Manual,
              linkedInvestmentId = None, linkedReceivableId = None\<rparr>)
             (accounts s @ [account\<lparr>a_id := nid, balance := 0\<rparr>])
      else accounts s @ [account\<lparr>a_id := nid, balance := 0\<rparr>])"
  "transactions (addAccount nid tid today account init s) =
     (if init \<noteq> 0
      then sortByDate
             (\<lparr>t_id = tid, date = today, ttype = Income, accountId = nid, toAccountId = None,
              amount = init, category = saldoAwal,
              description = ''Saldo awal untuk rekening '' @ a_name account, source = Manual,
              linkedInvestmentId = None, linkedReceivableId = None\<rparr> # transactions s)
      else transactions s)"
  "investments (addAccount nid tid today account init s) = investments s"
  by (simp_all add: addAccount_def Let_def accounts_addTransaction transactions_addTransaction
      others_addTransaction setAccounts_def)

lemma deleteAccount_shape:
  "accounts (snd (deleteAccount aid s)) =
     (if isAccountInUse aid s then accounts s
      else filter (\<lambda>acc. a_id acc \<noteq> aid) (accounts s))"
  "transactions (snd (deleteAccount aid s)) =
     (if isAccountInUse aid s then transactions s
      else filter (\<lambda>t. \<not> isInitialTx aid t) (transactions s))"
  "investments (snd (deleteAccount aid s)) = investments s"
  by (simp_all add: deleteAccount_def setAccounts_def setTransactions_def
      isInitialTx_def [abs_def])

lemma platform_shape:
  "accounts (addPlatform nid p s) = accounts s"
  "transactions (addPlatform nid p s) = transactions s"
  "investments (addPlatform nid p s) = investments s"
  "accounts (updatePlatform p s) = accounts s"
  "transactions (updatePlatform p s) = transactions s"
  "investments (updatePlatform p s) = investments s"
  "accounts (snd (deletePlatform pid s)) = accounts s"
  "transactions (snd (deletePlatform pid s)) = transactions s"
  "investments (snd (deletePlatform pid s)) = investments s"
  by (simp_all add: addPlatform_def updatePlatform_def deletePlatform_def setPlatforms_def)

lemma addInvestment_shape:
  "accounts (addInvestment nid tid iv s) =
     map (applyTransaction
       \<lparr>t_id = tid, date = i_date iv, ttype = Expense, accountId = i_accountId iv,
        toAccountId = None, amount = initialValue iv, category = ''Investasi'',
        description = ''Modal awal investasi '' @ i_name iv, source = Investment,
        linkedInvestmentId = Some nid, linkedReceivableId = None\<rparr>) (accounts s)"
  "transactions (addInvestment nid tid iv s) =
     sortByDate
       (\<lparr>t_id = tid, date = i_date iv, ttype = Expense, accountId = i_accountId iv,
        toAccountId = None, amount = initialValue iv, category = ''Investasi'',
        description = ''Modal awal investasi '' @ i_name iv, source = Investment,
        linkedInvestmentId = Some nid, linkedReceivableId = None\<rparr> # transactions s)"
  "investments (addInvestment nid tid iv s) = investments s @ [iv\<lparr>i_id := nid\<rparr>]"
  by (simp_all add: addInvestment_def Let_def accounts_addTransaction
      transactions_addTransaction others_addTransaction setInvestments_def)

lemma updateInvestment_shape:
  "accounts (updateInvestment upd s) = accounts s"
  "transactions (updateInvestment upd s) = transactions s"
  "investments (updateInvestment upd s) =
     map (\<lambda>iv. if i_id iv = i_id upd
       then iv\<lparr>i_name := i_name upd, i_date := i_date upd, platformId := platformId upd\<rparr>
       else iv) (investments s)"
  "accounts (updateInvestmentValue iid v s) = accounts s"
  "transactions (updateInvestmentValue iid v s) = transactions s"
  "investments (updateInvestmentValue iid v s) =
     map (\<lambda>iv. if i_id iv = iid then iv\<lparr>currentValue := v\<rparr> else iv) (investments s)"
  by (simp_all add: updateInvestment_def updateInvestmentValue_def setInvestments_def)

lemma deleteInvestment_None:
  "find (\<lambda>iv. i_id iv = iid) (investments s) = None \<Longrightarrow> deleteInvestment tid today iid s = s"
  by (simp add: deleteInvestment_def)

lemma deleteInvestment_shape:
  assumes "find (\<lambda>iv. i_id iv = iid) (investments s) = Some iv"
  shows "accounts (deleteInvestment tid today iid s) =
      map (applyTransaction
        \<lparr>t_id = tid, date = today, ttype = Income, accountId = i_accountId iv,
         toAccountId = None, amount = initialValue iv, category = ''Pengembalian Investasi'',
         description = ''Pengembalian modal investasi '' @ i_name iv, source = Investment,
         linkedInvestmentId = Some iid, linkedReceivableId = None\<rparr>) (accounts s)"
    and "transactions (deleteInvestment tid today iid s) =
      sortByDate (filter (\<lambda>t. \<not> linkedTo iid t) (transactions s))"
    and "investments (deleteInvestment tid today iid s) =
      filter (\<lambda>iv. i_id iv \<noteq> iid) (investments s)"
  using assms
  by (simp_all add: transactions_deleteInvestment)
    (simp_all add: deleteInvestment_def setTransactions_def setInvestments_def
      accounts_addTransaction others_addTransaction)

lemma addReceivable_shape:
  "accounts (addReceivable nid tid today r s) =
     map (applyTransaction
       \<lparr>t_id = tid, date = today, ttype = Expense, accountId = r_accountId r,
        toAccountId = None, amount = r_amount r, category = ''Piutang'',
        description = ''Piutang kepada '' @ debtorName r, source = Receivable,
        linkedInvestmentId = None, linkedReceivableId = Some nid\<rparr>) (accounts s)"
  "transactions (addReceivable nid tid today r s) =
     sortByDate
       (\<lparr>t_id = tid, date = today, ttype = Expense, accountId = r_accountId r,
        toAccountId = None, amount = r_amount r, category = ''Piutang'',
        description = ''Piutang kepada '' @ debtorName r, source = Receivable,
        linkedInvestmentId = None, linkedReceivableId = Some nid\<rparr> # transactions s)"
  "investments (addReceivable nid tid today r s) = investments s"
  by (simp_all add: addReceivable_def Let_def accounts_addTransaction
      transactions_addTransaction others_addTransaction setReceivables_def)

lemma updateReceivable_shape:
  "accounts (updateReceivable r s) = accounts s"
  "transactions (updateReceivable r s) = transactions s"
  "investments (updateReceivable r s) = investments s"
  by (simp_all add: updateReceivable_def setReceivables_def)

lemma deleteReceivable_shape:
  "accounts (deleteReceivable rid s) =
     map (recomputeBalance (filter (\<lambda>t. linkedReceivableId t \<noteq> Some rid) (transactions s)))
       (accounts s)"
  "transactions (deleteReceivable rid s) =
     sortByDate (filter (\<lambda>t. linkedReceivableId t \<noteq> Some rid) (transactions s))"
  "investments (deleteReceivable rid s) = investments s"
  by (simp_all add: deleteReceivable_def Let_def setAccounts_def setTransactions_def
      setReceivables_def)

lemma markReceivableAsPaid_None:
  "find (\<lambda>r. r_id r = rid) (receivables s) = None \<Longrightarrow>
   markReceivableAsPaid tid today rid aid s = s"
  by (simp add: markReceivableAsPaid_def)

lemma markReceivableAsPaid_shape:
  assumes "find (\<lambda>r. r_id r = rid) (receivables s) = Some r"
  shows "accounts (markReceivableAsPaid tid today rid aid s) =
      map (applyTransaction
        \<lparr>t_id = tid, date = today, ttype = Income, accountId = aid, toAccountId = None,
         amount = r_amount r, category = ''Piutang'',
         description = ''Pembayaran piutang dari '' @ debtorName r, source = Receivable,
         linkedInvestmentId = None, linkedReceivableId = Some rid\<rparr>) (accounts s)"
    and "transactions (markReceivableAsPaid tid today rid aid s) =
      sortByDate
        (\<lparr>t_id = tid, date = today, ttype = Income, accountId = aid, toAccountId = None,
         amount = r_amount r, category = ''Piutang'',
         description = ''Pembayaran piutang dari '' @ debtorName r, source = Receivable,
         linkedInvestmentId = None, linkedReceivableId = Some rid\<rparr> # transactions s)"
    and "investments (markReceivableAsPaid tid today rid aid s) = investments s"
  using assms
  by (simp_all add: markReceivableAsPaid_def accounts_addTransaction
      transactions_addTransaction others_addTransaction setReceivables_def)

subsection \<open>Identifiers that do not occur in the store\<close>

lemma fresh_transactions:
  assumes "\<not> occursIn x s" and "t \<in> set (transactions s)"
  shows "accountId t \<noteq> x" and "toAccountId t \<noteq> Some x"
  using assms by (auto simp: occursIn_def list_ex_iff)

lemma fresh_investments:
  assumes "\<not> occursIn x s"
  shows "find (\<lambda>iv. i_id iv = x) (investments s) = None"
  using assms by (auto simp: occursIn_def list_ex_iff find_None_iff)

subsection \<open>At most one opening-balance transaction per account, step by step\<close>

lemma uniqueOpenings_add_other:
  "uniqueOpenings txs \<Longrightarrow> \<not> isOpening t \<Longrightarrow> uniqueOpenings (sortByDate (t # txs))"
  by (simp add: uniqueOpenings_sortByDate uniqueOpenings_Cons_other)

lemma uniqueOpenings_add_opening:
  "uniqueOpenings txs \<Longrightarrow> \<forall>u\<in>set txs. isOpening u \<longrightarrow> accountId u \<noteq> accountId t \<Longrightarrow>
   uniqueOpenings (sortByDate (t # txs))"
  by (simp add: uniqueOpenings_sortByDate uniqueOpenings_Cons_opening)

lemma uniqueOpenings_remove:
  "uniqueOpenings (ys @ t # zs) \<Longrightarrow> uniqueOpenings (ys @ zs)"
  by (cases "isOpening t") (auto simp: uniqueOpenings_def)

lemma uniqueOpenings_replace:
  assumes "uniqueOpenings (ys @ t # zs)" and "isOpening t' = isOpening t"
    and "accountId t' = accountId t"
  shows "uniqueOpenings (ys @ t' # zs)"
proof -
  have "map accountId (filter isOpening (ys @ t' # zs)) =
      map accountId (filter isOpening (ys @ t # zs))"
    using assms(2,3) by simp
  with assms(1) show ?thesis by (simp only: uniqueOpenings_def)
qed

lemma uniqueOpenings_updateAccount:
  assumes "uniqueOpenings (transactions s)"
  shows "uniqueOpenings (transactions (updateAccount tid today upd new s))"
proof (cases rule: updateAccount_cases [of s upd tid today new])
  case (found ys t zs)
  have "uniqueOpenings (ys @ zs)"
    using assms unfolding found(1) by (rule uniqueOpenings_remove)
  moreover have "uniqueOpenings (ys @ t\<lparr>amount := new\<rparr> # zs)"
    using assms unfolding found(1)
    by (rule uniqueOpenings_replace) (simp_all add: isOpening_def)
  ultimately show ?thesis
    unfolding found(3) by (simp add: uniqueOpenings_sortByDate)
next
  case absent
  have other: "\<forall>u\<in>set (transactions s). isOpening u \<longrightarrow> accountId u \<noteq> a_id upd"
    using absent(1) by (auto simp: isInitialTx_iff)
  show ?thesis
  proof (cases "new = 0")
    case True
    then show ?thesis
      unfolding absent(2) using assms by (simp add: uniqueOpenings_sortByDate)
  next
    case False
    then show ?thesis
      unfolding absent(2) using assms other
      by (simp add: uniqueOpenings_sortByDate uniqueOpenings_Cons_opening)
  qed
qed

lemma uniqueOpenings_step:
  assumes "uniqueOpenings (transactions s)" and "admissible notOpening c s"
  shows "uniqueOpenings (transactions (perform c s))"
proof (cases c)
  case (AddTransaction nid tx)
  then have "\<not> isOpening (tx\<lparr>t_id := nid\<rparr>)"
    using assms(2) by (simp add: notOpening_def isOpening_def)
  with assms(1) show ?thesis
    unfolding AddTransaction perform.simps transactions_addTransaction
    by (rule uniqueOpenings_add_other)
next
  case (AddAccount nid tid today account init)
  then have fresh: "\<not> occursIn nid s" using assms(2) by simp
  have "\<forall>u\<in>set (transactions s). isOpening u \<longrightarrow> accountId u \<noteq> nid"
    using fresh_transactions(1) [OF fresh] by blast
  then show ?thesis
    unfolding AddAccount perform.simps addAccount_shape using assms(1)
    by (simp add: uniqueOpenings_add_opening)
next
  case (UpdateAccount tid today upd new)
  show ?thesis
    unfolding UpdateAccount perform.simps using assms(1) by (rule uniqueOpenings_updateAccount)
next
  case (DeleteAccount aid)
  show ?thesis
    unfolding DeleteAccount perform.simps deleteAccount_shape using assms(1)
    by (simp add: uniqueOpenings_filter)
next
  case (AddPlatform nid p)
  show ?thesis
    unfolding AddPlatform perform.simps platform_shape using assms(1) .
next
  case (UpdatePlatform p)
  show ?thesis
    unfolding UpdatePlatform perform.simps platform_shape using assms(1) .
next
  case (DeletePlatform pid)
  show ?thesis
    unfolding DeletePlatform perform.simps platform_shape using assms(1) .
next
  case (AddInvestment nid tid iv)
  show ?thesis
    unfolding AddInvestment perform.simps addInvestment_shape using assms(1)
    by (rule uniqueOpenings_add_other) (simp add: isOpening_def saldoAwal_def)
next
  case (UpdateInvestment upd)
  show ?thesis
    unfolding UpdateInvestment perform.simps updateInvestment_shape using assms(1) .
next
  case (UpdateInvestmentValue iid v)
  show ?thesis
    unfolding UpdateInvestmentValue perform.simps updateInvestment_shape using assms(1) .
next
  case (DeleteInvestment tid today iid)
  show ?thesis
  proof (cases "find (\<lambda>iv. i_id iv = iid) (investments s)")
    case None
    then show ?thesis
      unfolding DeleteInvestment perform.simps using assms(1)
      by (simp add: deleteInvestment_None)
  next
    case (Some iv)
    show ?thesis
      unfolding DeleteInvestment perform.simps deleteInvestment_shape(2) [OF Some]
      using assms(1) by (simp add: uniqueOpenings_sortByDate uniqueOpenings_filter)
  qed
next
  case (AddReceivable nid tid today r)
  show ?thesis
    unfolding AddReceivable perform.simps addReceivable_shape using assms(1)
    by (rule uniqueOpenings_add_other) (simp add: isOpening_def saldoAwal_def)
next
  case (UpdateReceivable r)
  show ?thesis
    unfolding UpdateReceivable perform.simps updateReceivable_shape using assms(1) .
next
  case (DeleteReceivable rid)
  show ?thesis
    unfolding DeleteReceivable perform.simps deleteReceivable_shape using assms(1)
    by (simp add: uniqueOpenings_sortByDate uniqueOpenings_filter)
next
  case (MarkReceivableAsPaid tid today rid aid)
  show ?thesis
  proof (cases "find (\<lambda>r. r_id r = rid) (receivables s)")
    case None
    then show ?thesis
      unfolding MarkReceivableAsPaid perform.simps using assms(1)
      by (simp add: markReceivableAsPaid_None)
  next
    case (Some r)
    show ?thesis
      unfolding MarkReceivableAsPaid perform.simps markReceivableAsPaid_shape(2) [OF Some]
      using assms(1)
      by (rule uniqueOpenings_add_other) (simp add: isOpening_def saldoAwal_def)
  qed
qed

lemma reachable_uniqueOpenings:
  assumes "\<And>tx. ok tx \<Longrightarrow> notOpening tx" and "reachable ok s"
  shows "uniqueOpenings (transactions s)"
  using assms(2)
proof (induction rule: reachable.induct)
  case start
  show ?case by (simp add: emptyStore_def uniqueOpenings_def)
next
  case (step s c)
  have "admissible notOpening c s"
    using step.hyps(2) assms(1) by (cases c) simp_all
  with step.IH show ?case by (rule uniqueOpenings_step)
qed

subsection \<open>Opening-balance transactions are incomes, step by step\<close>

lemma incomeOpenings_add:
  "incomeOpenings txs \<Longrightarrow> isOpening t \<longrightarrow> ttype t = Income \<Longrightarrow>
   incomeOpenings (sortByDate (t # txs))"
  by (simp add: incomeOpenings_sortByDate incomeOpenings_Cons)

lemma incomeOpenings_updateAccount:
  assumes "incomeOpenings (transactions s)"
  shows "incomeOpenings (transactions (updateAccount tid today upd new s))"
proof (cases rule: updateAccount_cases [of s upd tid today new])
  case (found ys t zs)
  show ?thesis
    unfolding found(3) using assms unfolding found(1)
    by (auto simp: incomeOpenings_iff set_sortByDate isOpening_def)
next
  case absent
  show ?thesis
    unfolding absent(2) using assms
    by (simp add: incomeOpenings_sortByDate incomeOpenings_Cons)
qed

lemma incomeOpenings_step:
  assumes "incomeOpenings (transactions s)" and "admissible notOpening c s"
  shows "incomeOpenings (transactions (perform c s))"
proof (cases c)
  case (AddTransaction nid tx)
  then have "\<not> isOpening (tx\<lparr>t_id := nid\<rparr>)"
    using assms(2) by (simp add: notOpening_def isOpening_def)
  with assms(1) show ?thesis
    unfolding AddTransaction perform.simps transactions_addTransaction
    by (simp add: incomeOpenings_add)
next
  case (AddAccount nid tid today account init)
  show ?thesis
    unfolding AddAccount perform.simps addAccount_shape using assms(1)
    by (simp add: incomeOpenings_add)
next
  case (UpdateAccount tid today upd new)
  show ?thesis
    unfolding UpdateAccount perform.simps using assms(1) by (rule incomeOpenings_updateAccount)
next
  case (DeleteAccount aid)
  show ?thesis
    unfolding DeleteAccount perform.simps deleteAccount_shape using assms(1)
    by (simp add: incomeOpenings_filter)
next
  case (AddPlatform nid p)
  show ?thesis
    unfolding AddPlatform perform.simps platform_shape using assms(1) .
next
  case (UpdatePlatform p)
  show ?thesis
    unfolding UpdatePlatform perform.simps platform_shape using assms(1) .
next
  case (DeletePlatform pid)
  show ?thesis
    unfolding DeletePlatform perform.simps platform_shape using assms(1) .
next
  case (AddInvestment nid tid iv)
  show ?thesis
    unfolding AddInvestment perform.simps addInvestment_shape using assms(1)
    by (rule incomeOpenings_add) (simp add: isOpening_def saldoAwal_def)
next
  case (UpdateInvestment upd)
  show ?thesis
    unfolding UpdateInvestment perform.simps updateInvestment_shape using assms(1) .
next
  case (UpdateInvestmentValue iid v)
  show ?thesis
    unfolding UpdateInvestmentValue perform.simps updateInvestment_shape using assms(1) .
next
  case (DeleteInvestment tid today iid)
  show ?thesis
  proof (cases "find (\<lambda>iv. i_id iv = iid) (investments s)")
    case None
    then show ?thesis
      unfolding DeleteInvestment perform.simps using assms(1)
      by (simp add: deleteInvestment_None)
  next
    case (Some iv)
    show ?thesis
      unfolding DeleteInvestment perform.simps deleteInvestment_shape(2) [OF Some]
      using assms(1) by (simp add: incomeOpenings_sortByDate incomeOpenings_filter)
  qed
next
  case (AddReceivable nid tid today r)
  show ?thesis
    unfolding AddReceivable perform.simps addReceivable_shape using assms(1)
    by (rule incomeOpenings_add) (simp add: isOpening_def saldoAwal_def)
next
  case (UpdateReceivable r)
  show ?thesis
    unfolding UpdateReceivable perform.simps updateReceivable_shape using assms(1) .
next
  case (DeleteReceivable rid)
  show ?thesis
    unfolding DeleteReceivable perform.simps deleteReceivable_shape using assms(1)
    by (simp add: incomeOpenings_sortByDate incomeOpenings_filter)
next
  case (MarkReceivableAsPaid tid today rid aid)
  show ?thesis
  proof (cases "find (\<lambda>r. r_id r = rid) (receivables s)")
    case None
    then show ?thesis
      unfolding MarkReceivableAsPaid perform.simps using assms(1)
      by (simp add: markReceivableAsPaid_None)
  next
    case (Some r)
    show ?thesis
      unfolding MarkReceivableAsPaid perform.simps markReceivableAsPaid_shape(2) [OF Some]
      using assms(1)
      by (rule incomeOpenings_add) (simp add: isOpening_def saldoAwal_def)
  qed
qed

subsection \<open>Investments stay linked to their outflow, step by step\<close>

lemma investmentsLinked_add_unlinked:
  "investmentsLinked ivs txs \<Longrightarrow> (\<And>iid. \<not> linkedTo iid t) \<Longrightarrow>
   investmentsLinked ivs (sortByDate (t # txs))"
  by (simp add: investmentsLinked_sortByDate investmentsLinked_Cons_unlinked)

lemma investmentsLinked_updateAccount:
  assumes "investmentsLinked (investments s) (transactions s)"
  shows "investmentsLinked (investments (updateAccount tid today upd new s))
           (transactions (updateAccount tid today upd new s))"
proof (cases rule: updateAccount_cases [of s upd tid today new])
  case (found ys t zs)
  have "t \<in> set (transactions s)" "isOpening t"
    using found(1,2) by (simp_all add: isInitialTx_iff)
  then have nl: "\<not> linkedTo iid t" for iid
    using assms opening_not_linked by blast
  then have nl': "\<not> linkedTo iid (t\<lparr>amount := new\<rparr>)" for iid
    by (simp add: linkedTo_def)
  have "investmentsLinked (investments s)
      (if new = 0 then ys @ zs else ys @ t\<lparr>amount := new\<rparr> # zs) =
      investmentsLinked (investments s) (transactions s)"
    unfolding found(1) by (rule investmentsLinked_cong) (simp add: nl nl')
  with assms show ?thesis
    unfolding found(3,5) by (simp only: investmentsLinked_sortByDate)
next
  case absent
  show ?thesis
  proof (cases "new = 0")
    case True
    with assms show ?thesis
      unfolding absent(2,4) by (simp add: investmentsLinked_sortByDate)
  next
    case False
    with assms show ?thesis
      unfolding absent(2,4)
      by (simp add: investmentsLinked_sortByDate investmentsLinked_Cons_unlinked linkedTo_def)
  qed
qed

lemma investmentsLinked_step:
  assumes "investmentsLinked (investments s) (transactions s)" and "admissible manualEntry c s"
  shows "investmentsLinked (investments (perform c s)) (transactions (perform c s))"
proof (cases c)
  case (AddTransaction nid tx)
  then have "\<not> linkedTo iid (tx\<lparr>t_id := nid\<rparr>)" for iid
    using assms(2) by (auto simp: manualEntry_def linkedTo_def)
  with assms(1) show ?thesis
    unfolding AddTransaction perform.simps transactions_addTransaction
      investments_addTransaction
    by (rule investmentsLinked_add_unlinked)
next
  case (AddAccount nid tid today account init)
  show ?thesis
    unfolding AddAccount perform.simps addAccount_shape using assms(1)
    by (simp add: investmentsLinked_add_unlinked linkedTo_def)
next
  case (UpdateAccount tid today upd new)
  show ?thesis
    unfolding UpdateAccount perform.simps using assms(1)
    by (rule investmentsLinked_updateAccount)
next
  case (DeleteAccount aid)
  have "investmentsLinked (investments s) (filter (\<lambda>t. \<not> isInitialTx aid t) (transactions s))"
    using assms(1)
    by (rule investmentsLinked_filter) (simp add: outflowOf_def isInitialTx_iff)
  with assms(1) show ?thesis
    unfolding DeleteAccount perform.simps deleteAccount_shape by simp
next
  case (AddPlatform nid p)
  show ?thesis
    unfolding AddPlatform perform.simps platform_shape using assms(1) .
next
  case (UpdatePlatform p)
  show ?thesis
    unfolding UpdatePlatform perform.simps platform_shape using assms(1) .
next
  case (DeletePlatform pid)
  show ?thesis
    unfolding DeletePlatform perform.simps platform_shape using assms(1) .
next
  case (AddInvestment nid tid iv)
  then have "\<not> occursIn nid s" using assms(2) by simp
  then have none: "find (\<lambda>iv. i_id iv = nid) (investments s) = None"
    by (rule fresh_investments)
  show ?thesis
    unfolding AddInvestment perform.simps addInvestment_shape investmentsLinked_sortByDate
    using assms(1) none
    by (rule investmentsLinked_add)
      (simp_all add: linkedTo_def outflowOf_def isOpening_def saldoAwal_def)
next
  case (UpdateInvestment upd)
  show ?thesis
    unfolding UpdateInvestment perform.simps updateInvestment_shape using assms(1)
    by (rule investmentsLinked_map) simp
next
  case (UpdateInvestmentValue iid v)
  show ?thesis
    unfolding UpdateInvestmentValue perform.simps updateInvestment_shape using assms(1)
    by (rule investmentsLinked_map) simp
next
  case (DeleteInvestment tid today iid)
  show ?thesis
  proof (cases "find (\<lambda>iv. i_id iv = iid) (investments s)")
    case None
    then show ?thesis
      unfolding DeleteInvestment perform.simps using assms(1)
      by (simp add: deleteInvestment_None)
  next
    case (Some iv)
    show ?thesis
      unfolding DeleteInvestment perform.simps deleteInvestment_shape(2,3) [OF Some]
        investmentsLinked_sortByDate
      using assms(1) by (rule investmentsLinked_delete)
  qed
next
  case (AddReceivable nid tid today r)
  show ?thesis
    unfolding AddReceivable perform.simps addReceivable_shape using assms(1)
    by (rule investmentsLinked_add_unlinked) (simp add: linkedTo_def)
next
  case (UpdateReceivable r)
  show ?thesis
    unfolding UpdateReceivable perform.simps updateReceivable_shape using assms(1) .
next
  case (DeleteReceivable rid)
  show ?thesis
    unfolding DeleteReceivable perform.simps deleteReceivable_shape
      investmentsLinked_sortByDate
    using assms(1) by (rule investmentsLinked_filter) (simp add: outflowOf_def)
next
  case (MarkReceivableAsPaid tid today rid aid)
  show ?thesis
  proof (cases "find (\<lambda>r. r_id r = rid) (receivables s)")
    case None
    then show ?thesis
      unfolding MarkReceivableAsPaid perform.simps using assms(1)
      by (simp add: markReceivableAsPaid_None)
  next
    case (Some r)
    show ?thesis
      unfolding MarkReceivableAsPaid perform.simps markReceivableAsPaid_shape(2,3) [OF Some]
      using assms(1)
      by (rule investmentsLinked_add_unlinked) (simp add: linkedTo_def)
  qed
qed

subsection \<open>Balances stay consistent with the log, step by step\<close>

lemma consistent_addTransaction:
  assumes "consistent accs txs"
    and "\<not> (ttype t = Transfer \<and> toAccountId t = Some (accountId t))"
    and "wholeLog (sortByDate (t # txs))"
  shows "consistent (map (applyTransaction t) accs) (sortByDate (t # txs))"
  unfolding consistent_sortByDate
  using assms(1,2) assms(3) [unfolded wholeLog_sortByDate] by (rule consistent_add)

lemma a_id_patchAccount: "a_id (patchAccount upd d acc) = a_id acc"
  by (simp add: patchAccount_def)

lemma balance_patchAccount:
  "balance (patchAccount upd d acc) = balance acc + (if a_id acc = a_id upd then d else 0)"
  by (simp add: patchAccount_def)

lemma consistent_patch:
  assumes "consistent accs txs" and "valueOf d = Some rd"
    and "\<And>a. signedSum txs' a = signedSum txs a + (if a = a_id upd then rd else 0)"
    and "wholeLog txs'"
  shows "consistent (map (patchAccount upd d) accs) txs'"
  using assms(1)
proof (rule consistent_map)
  fix acc :: account
  assume b: "valueOf (balance acc) = Some (signedSum txs (a_id acc))"
  show "a_id (patchAccount upd d acc) = a_id acc \<and>
      valueOf (balance (patchAccount upd d acc)) = Some (signedSum txs' (a_id acc))"
  proof (cases "a_id acc = a_id upd")
    case True
    have "safeInt (signedSum txs' (a_id acc))"
      using assms(4) by (rule wholeLog_safe)
    then have "safeInt (signedSum txs (a_id acc) + rd)"
      using True by (simp add: assms(3))
    with b assms(2) have "valueOf (balance acc + d) = Some (signedSum txs (a_id acc) + rd)"
      by (rule plus_exact)
    then show ?thesis
      using True by (simp add: patchAccount_def assms(3))
  next
    case False
    then show ?thesis
      using b by (simp add: patchAccount_def assms(3))
  qed
qed

lemma wholeLog_bound:
  assumes "wholeLog txs" and "t \<in> set txs"
  shows "isWhole (amount t)" and "\<bar>ratOf (amount t)\<bar> < 2 ^ 52"
proof -
  show "isWhole (amount t)"
    using assms by (rule wholeLog_member)
  have "\<bar>ratOf (amount t)\<bar> \<le> logVolume txs"
    using assms(2) by (rule logVolume_member)
  also have "\<dots> < 2 ^ 52"
    using assms(1) by (simp add: wholeLog_def)
  finally show "\<bar>ratOf (amount t)\<bar> < 2 ^ 52" .
qed

lemma minus_whole:
  assumes "isWhole x" and "isWhole y" and "\<bar>ratOf x\<bar> < 2 ^ 52" and "\<bar>ratOf y\<bar> < 2 ^ 52"
  shows "valueOf (x - y) = Some (ratOf x - ratOf y)"
proof -
  have "\<bar>ratOf x - ratOf y\<bar> \<le> \<bar>ratOf x\<bar> + \<bar>ratOf y\<bar>"
    by (rule abs_triangle_ineq4)
  moreover have "(2::rat) ^ 52 + 2 ^ 52 = 2 ^ 53"
    by simp
  ultimately have "\<bar>ratOf x - ratOf y\<bar> \<le> 2 ^ 53"
    using assms(3,4) by linarith
  then have "safeInt (ratOf x - ratOf y)"
    using assms(1,2) by (intro safeIntI Ints_diff isWhole_Ints)
  with isWhole_value [OF assms(1)] isWhole_value [OF assms(2)] show ?thesis
    by (rule minus_exact)
qed

lemma consistent_updateAccount:
  assumes "consistent (accounts s) (transactions s)" and "incomeOpenings (transactions s)"
    and "wholeLog (transactions s)"
    and "wholeLog (transactions (updateAccount tid today upd new s))"
  shows "consistent (accounts (updateAccount tid today upd new s))
           (transactions (updateAccount tid today upd new s))"
proof (cases rule: updateAccount_cases [of s upd tid today new])
  case (found ys t zs)
  have mem: "t \<in> set (transactions s)" and "isOpening t" and acc: "accountId t = a_id upd"
    using found(1,2) by (simp_all add: isInitialTx_iff)
  then have inc: "ttype t = Income"
    using assms(2) by (simp add: incomeOpenings_iff)
  have e: "effect t a = (if a = a_id upd then ratOf (amount t) else 0)" for a
    using inc acc by (auto simp: effect_Income)
  have e': "effect (t\<lparr>amount := new\<rparr>) a = (if a = a_id upd then ratOf new else 0)" for a
    using inc acc by (auto simp: effect_Income)
  have post: "wholeLog (if new = 0 then ys @ zs else ys @ t\<lparr>amount := new\<rparr> # zs)"
    using assms(4) unfolding found(3) wholeLog_sortByDate .
  have old: "isWhole (amount t)" "\<bar>ratOf (amount t)\<bar> < 2 ^ 52"
    using wholeLog_bound [OF assms(3) mem] by simp_all
  have new: "isWhole new \<and> \<bar>ratOf new\<bar> < 2 ^ 52"
  proof (cases "new = 0")
    case True
    then show ?thesis by simp
  next
    case False
    then have "wholeLog (ys @ t\<lparr>amount := new\<rparr> # zs)"
      using post by simp
    from wholeLog_bound [OF this, of "t\<lparr>amount := new\<rparr>"] show ?thesis
      by simp
  qed
  then have d: "valueOf (new - amount t) = Some (ratOf new - ratOf (amount t))"
    using old by (intro minus_whole) simp_all
  show ?thesis
    unfolding found(3,4) consistent_sortByDate using assms(1) d
  proof (rule consistent_patch)
    fix a
    show "signedSum (if new = 0 then ys @ zs else ys @ t\<lparr>amount := new\<rparr> # zs) a =
        signedSum (transactions s) a +
        (if a = a_id upd then ratOf new - ratOf (amount t) else 0)"
      unfolding found(1) by (simp add: signedSum_append signedSum_Cons e e')
  next
    show "wholeLog (if new = 0 then ys @ zs else ys @ t\<lparr>amount := new\<rparr> # zs)"
      by (rule post)
  qed
next
  case absent
  let ?opening = "\<lparr>t_id = tid, date = today, ttype = Income, accountId = a_id upd,
                 toAccountId = None, amount = new, category = saldoAwal,
                 description = ''Saldo awal untuk rekening '' @ a_name upd,
                 source = Manual, linkedInvestmentId = None,
                 linkedReceivableId = None\<rparr>"
  have post: "wholeLog (if new \<noteq> 0 then ?opening # transactions s else transactions s)"
    using assms(4) unfolding absent(2) wholeLog_sortByDate .
  have "isWhole new"
  proof (cases "new = 0")
    case True
    then show ?thesis by simp
  next
    case False
    then have "wholeLog (?opening # transactions s)"
      using post by simp
    from wholeLog_ConsD [OF this] show ?thesis
      by simp
  qed
  then have d: "valueOf new = Some (ratOf new)"
    by (rule isWhole_value)
  show ?thesis
    unfolding absent(2,3) consistent_sortByDate using assms(1) d
  proof (rule consistent_patch)
    fix a
    show "signedSum (if new \<noteq> 0 then ?opening # transactions s else transactions s) a =
        signedSum (transactions s) a + (if a = a_id upd then ratOf new else 0)"
      by (auto simp: signedSum_Cons effect_Income)
  next
    show "wholeLog (if new \<noteq> 0 then ?opening # transactions s else transactions s)"
      by (rule post)
  qed
qed

lemma consistent_deleteAccount:
  assumes "consistent accs txs" and "incomeOpenings txs"
  shows "consistent (filter (\<lambda>acc. a_id acc \<noteq> aid) accs)
           (filter (\<lambda>t. \<not> isInitialTx aid t) txs)"
  unfolding consistent_iff
proof
  fix acc assume "acc \<in> set (filter (\<lambda>acc. a_id acc \<noteq> aid) accs)"
  then have acc: "acc \<in> set accs" and ne: "a_id acc \<noteq> aid" by simp_all
  have "\<forall>t\<in>set (filter (isInitialTx aid) txs). effect t (a_id acc) = 0"
  proof
    fix t assume "t \<in> set (filter (isInitialTx aid) txs)"
    then have "t \<in> set txs" "isOpening t" "accountId t = aid"
      by (simp_all add: isInitialTx_iff)
    then have "ttype t = Income" using assms(2) by (simp add: incomeOpenings_iff)
    then show "effect t (a_id acc) = 0"
      using ne \<open>accountId t = aid\<close> by (simp add: effect_Income)
  qed
  then have "signedSum (filter (isInitialTx aid) txs) (a_id acc) = 0"
    by (rule signedSum_unreferenced)
  with signedSum_filter [of "isInitialTx aid" txs "a_id acc"]
  have "signedSum (filter (\<lambda>t. \<not> isInitialTx aid t) txs) (a_id acc) = signedSum txs (a_id acc)"
    by simp
  with assms(1) acc
  show "valueOf (balance acc) =
      Some (signedSum (filter (\<lambda>t. \<not> isInitialTx aid t) txs) (a_id acc))"
    by (simp add: consistent_iff)
qed

lemma consistent_deleteInvestment:
  assumes "consistent accs txs" and "filter (linkedTo iid) txs = [t]" and "outflowOf iv t"
    and "ttype r = Income" and "accountId r = i_accountId iv" and "amount r = initialValue iv"
    and "wholeLog txs"
  shows "consistent (map (applyTransaction r) accs) (filter (\<lambda>t. \<not> linkedTo iid t) txs)"
  using assms(1)
proof (rule consistent_map)
  fix acc :: account
  assume b: "valueOf (balance acc) = Some (signedSum txs (a_id acc))"
  let ?rest = "filter (\<lambda>t. \<not> linkedTo iid t) txs"
  have nt: "\<not> (ttype r = Transfer \<and> toAccountId r = Some (accountId r))"
    using assms(4) by simp
  have "t \<in> set (filter (linkedTo iid) txs)"
    unfolding assms(2) by simp
  then have "t \<in> set txs"
    by simp
  with assms(7) have "isWhole (amount t)"
    by (rule wholeLog_member)
  then have w: "isWhole (amount r)"
    using assms(3,6) by (simp add: outflowOf_def)
  have split: "signedSum [t] (a_id acc) + signedSum ?rest (a_id acc) = signedSum txs (a_id acc)"
    using signedSum_filter [of "linkedTo iid" txs "a_id acc"] unfolding assms(2) .
  have "effect t (a_id acc) = - effect r (a_id acc)"
    using assms(3-6) by (simp add: outflowOf_def effect_Income effect_Expense)
  with split have sum: "signedSum txs (a_id acc) + effect r (a_id acc) = signedSum ?rest (a_id acc)"
    by (simp add: signedSum_Cons signedSum_Nil)
  have "safeInt (signedSum ?rest (a_id acc))"
    using assms(7) by (intro wholeLog_safe wholeLog_filter)
  then have "safeInt (signedSum txs (a_id acc) + effect r (a_id acc))"
    by (simp only: sum)
  with nt b w have "valueOf (balance (applyTransaction r acc)) =
      Some (signedSum txs (a_id acc) + effect r (a_id acc))"
    by (rule balance_applyTransaction)
  then show "a_id (applyTransaction r acc) = a_id acc \<and>
      valueOf (balance (applyTransaction r acc)) = Some (signedSum ?rest (a_id acc))"
    by (simp only: sum a_id_applyTransaction)
qed

lemma consistent_step:
  assumes "ledgerInv s" and "admissible manualEntry c s"
    and "wholeLog (transactions (perform c s))"
  shows "consistent (accounts (perform c s)) (transactions (perform c s))"
proof -
  have con: "consistent (accounts s) (transactions s)"
    and uni: "uniqueOpenings (transactions s)" and inc: "incomeOpenings (transactions s)"
    and lnk: "investmentsLinked (investments s) (transactions s)"
    and pre: "wholeLog (transactions s)"
    using assms(1) by (simp_all add: ledgerInv_def)
  note post = assms(3)
  show ?thesis
  proof (cases c)
    case (AddTransaction nid tx)
    then have "\<not> (ttype (tx\<lparr>t_id := nid\<rparr>) = Transfer \<and>
        toAccountId (tx\<lparr>t_id := nid\<rparr>) = Some (accountId (tx\<lparr>t_id := nid\<rparr>)))"
      using assms(2) by (simp add: manualEntry_def)
    with con show ?thesis
      unfolding AddTransaction perform.simps transactions_addTransaction
        accounts_addTransaction
      using post [unfolded AddTransaction perform.simps transactions_addTransaction]
      by (intro consistent_addTransaction)
  next
    case (AddAccount nid tid today account init)
    then have fresh: "\<not> occursIn nid s" using assms(2) by simp
    have "\<forall>t\<in>set (transactions s). effect t nid = 0"
      using fresh_transactions [OF fresh] by (simp add: effect_unreferenced)
    then have "signedSum (transactions s) nid = 0"
      by (rule signedSum_unreferenced)
    then have new: "consistent (accounts s @ [account\<lparr>a_id := nid, balance := 0\<rparr>])
        (transactions s)"
      using con by (simp add: consistent_append) (simp add: consistent_def)
    note post' = post [unfolded AddAccount perform.simps addAccount_shape]
    show ?thesis
    proof (cases "init = 0")
      case True
      with new show ?thesis
        unfolding AddAccount perform.simps addAccount_shape by simp
    next
      case False
      have "consistent
         (map (applyTransaction
             \<lparr>t_id = tid, date = today, ttype = Income, accountId = nid, toAccountId = None,
              amount = init, category = saldoAwal,
              description = ''Saldo awal untuk rekening '' @ a_name account, source = Manual,
              linkedInvestmentId = None, linkedReceivableId = None\<rparr>)
             (accounts s @ [account\<lparr>a_id := nid, balance := 0\<rparr>]))
         (sortByDate
             (\<lparr>t_id = tid, date = today, ttype = Income, accountId = nid, toAccountId = None,
              amount = init, category = saldoAwal,
              description = ''Saldo awal untuk rekening '' @ a_name account, source = Manual,
              linkedInvestmentId = None, linkedReceivableId = None\<rparr> # transactions s))"
        using new post' False by (intro consistent_addTransaction) simp_all
      with False show ?thesis
        unfolding AddAccount perform.simps addAccount_shape by simp
    qed
  next
    case (UpdateAccount tid today upd new)
    show ?thesis
      unfolding UpdateAccount perform.simps
      using con inc pre post [unfolded UpdateAccount perform.simps]
      by (rule consistent_updateAccount)
  next
    case (DeleteAccount aid)
    show ?thesis
      unfolding DeleteAccount perform.simps deleteAccount_shape
      using con consistent_deleteAccount [OF con inc] by simp
  next
    case (AddPlatform nid p)
    show ?thesis
      unfolding AddPlatform perform.simps platform_shape using con .
  next
    case (UpdatePlatform p)
    show ?thesis
      unfolding UpdatePlatform perform.simps platform_shape using con .
  next
    case (DeletePlatform pid)
    show ?thesis
      unfolding DeletePlatform perform.simps platform_shape using con .
  next
    case (AddInvestment nid tid iv)
    show ?thesis
      unfolding AddInvestment perform.simps addInvestment_shape
      using con post [unfolded AddInvestment perform.simps addInvestment_shape]
      by (intro consistent_addTransaction) simp_all
  next
    case (UpdateInvestment upd)
    show ?thesis
      unfolding UpdateInvestment perform.simps updateInvestment_shape using con .
  next
    case (UpdateInvestmentValue iid v)
    show ?thesis
      unfolding UpdateInvestmentValue perform.simps updateInvestment_shape using con .
  next
    case (DeleteInvestment tid today iid)
    show ?thesis
    proof (cases "find (\<lambda>iv. i_id iv = iid) (investments s)")
      case None
      then show ?thesis
        unfolding DeleteInvestment perform.simps using con
        by (simp add: deleteInvestment_None)
    next
      case (Some iv)
      from investmentsLinked_Some [OF lnk Some] obtain t where
        t: "filter (linkedTo iid) (transactions s) = [t]" "outflowOf iv t" by blast
      show ?thesis
        unfolding DeleteInvestment perform.simps deleteInvestment_shape(1,2) [OF Some]
          consistent_sortByDate
        using con t pre by (intro consistent_deleteInvestment [where iv = iv]) simp_all
    qed
  next
    case (AddReceivable nid tid today r)
    show ?thesis
      unfolding AddReceivable perform.simps addReceivable_shape
      using con post [unfolded AddReceivable perform.simps addReceivable_shape]
      by (intro consistent_addTransaction) simp_all
  next
    case (UpdateReceivable r)
    show ?thesis
      unfolding UpdateReceivable perform.simps updateReceivable_shape using con .
  next
    case (DeleteReceivable rid)
    show ?thesis
      unfolding DeleteReceivable perform.simps deleteReceivable_shape consistent_sortByDate
      by (rule consistent_recompute)
        (simp_all add: incomeOpenings_filter uniqueOpenings_filter wholeLog_filter inc uni pre)
  next
    case (MarkReceivableAsPaid tid today rid aid)
    show ?thesis
    proof (cases "find (\<lambda>r. r_id r = rid) (receivables s)")
      case None
      then show ?thesis
        unfolding MarkReceivableAsPaid perform.simps using con
        by (simp add: markReceivableAsPaid_None)
    next
      case (Some r)
      show ?thesis
        unfolding MarkReceivableAsPaid perform.simps markReceivableAsPaid_shape(1,2) [OF Some]
        using con
          post [unfolded MarkReceivableAsPaid perform.simps markReceivableAsPaid_shape(1,2) [OF Some]]
        by (intro consistent_addTransaction) simp_all
    qed
  qed
qed

lemma manualEntry_notOpening: "manualEntry tx \<Longrightarrow> notOpening tx"
  by (simp add: manualEntry_def notOpening_def)

lemma admissible_mono:
  "(\<And>tx. ok tx \<Longrightarrow> ok' tx) \<Longrightarrow> admissible ok c s \<Longrightarrow> admissible ok' c s"
  by (cases c) simp_all

lemma ledgerInv_step:
  assumes "ledgerInv s" and "admissible manualEntry c s" and "withinRange (perform c s)"
  shows "ledgerInv (perform c s)"
proof -
  have adm: "admissible notOpening c s"
    using manualEntry_notOpening assms(2) by (rule admissible_mono)
  have "uniqueOpenings (transactions s)" "incomeOpenings (transactions s)"
    "investmentsLinked (investments s) (transactions s)"
    using assms(1) by (simp_all add: ledgerInv_def)
  then have "uniqueOpenings (transactions (perform c s))"
    "incomeOpenings (transactions (perform c s))"
    "investmentsLinked (investments (perform c s)) (transactions (perform c s))"
    using adm assms(2)
    by (simp_all add: uniqueOpenings_step incomeOpenings_step investmentsLinked_step)
  moreover have post: "wholeLog (transactions (perform c s))"
    using assms(3) by (simp add: withinRange_def)
  ultimately show ?thesis
    using consistent_step [OF assms(1,2) post] by (simp add: ledgerInv_def)
qed

lemma ledgerInv_emptyStore: "ledgerInv emptyStore"
  by (simp add: ledgerInv_def emptyStore_def consistent_def uniqueOpenings_def
      incomeOpenings_def investmentsLinked_def wholeLog_Nil)

lemma reachableWithin_ledgerInv: "reachableWithin s \<Longrightarrow> ledgerInv s"
  by (induction rule: reachableWithin.induct) (simp_all add: ledgerInv_emptyStore ledgerInv_step)

subsection \<open>Evaluating the concrete sequences\<close>

lemmas eval_defs =
  addAccount_def addTransaction_def updateAccount_def addInvestment_def deleteInvestment_def
  setAccounts_def setTransactions_def setInvestments_def setReceivables_def
  demoAccount_def demoOpening_def demoLoan_def demoPayment_def demoReceivable_def
  demoInvestment_def demoTransfer_def demoSelfTransfer_def expenseAsOpening_def
  incomeAsOpening_def incomeAsInvestment_def transferAsOpening_def
  sortByDate_def applyTransaction_def creditLeg_def isInitialTx_def saldoAwal_def Let_def
  ofInt_plus ofInt_minus zero_minus_ofInt ofInt_eq_zero_iff

lemmas range_defs =
  withinRange_def wholeLog_def logVolume_def isWhole_ofInt ratOf_ofInt

lemma reachable_to:
  "reachable ok s \<Longrightarrow> admissible ok c s \<Longrightarrow> perform c s = s' \<Longrightarrow> reachable ok s'"
  by (auto intro: reachable.step)

lemma reachableWithin_to:
  "reachableWithin s \<Longrightarrow> admissible manualEntry c s \<Longrightarrow> perform c s = s' \<Longrightarrow>
   withinRange s' \<Longrightarrow> reachableWithin s'"
  by (auto intro: reachableWithin.step)

lemma openedStore_eq:
  "openedStore =
     \<lparr>accounts = [demoAccount ''A''], platforms = [], investments = [],
      transactions = [demoOpening ''t1'' ''A''], receivables = []\<rparr>"
  by (simp add: openedStore_def emptyStore_def eval_defs)

lemma pairStore_eq:
  "pairStore =
     \<lparr>accounts = [demoAccount ''A'', demoAccount ''B''], platforms = [], investments = [],
      transactions = [demoOpening ''t2'' ''B'', demoOpening ''t1'' ''A''],
      receivables = []\<rparr>"
  unfolding pairStore_def openedStore_eq by (simp add: eval_defs)

lemma lentStore_eq:
  "perform (AddReceivable ''r1'' ''t3'' 2
        \<lparr>r_id = [], debtorName = ''Budi'', r_amount = ofInt 200, dueDate = 9, r_accountId = ''A'',
         status = Unpaid\<rparr>) pairStore =
      \<lparr>accounts = [(demoAccount ''A'')\<lparr>balance := ofInt 300\<rparr>, demoAccount ''B''], platforms = [],
       investments = [],
       transactions = [demoLoan, demoOpening ''t2'' ''B'', demoOpening ''t1'' ''A''],
       receivables = [demoReceivable\<lparr>status := Unpaid\<rparr>]\<rparr>"
  unfolding pairStore_eq by (simp add: addReceivable_def eval_defs)

lemma paidStore_eq:
  "perform (MarkReceivableAsPaid ''t4'' 3 ''r1'' ''A'')
      \<lparr>accounts = [(demoAccount ''A'')\<lparr>balance := ofInt 300\<rparr>, demoAccount ''B''], platforms = [],
       investments = [],
       transactions = [demoLoan, demoOpening ''t2'' ''B'', demoOpening ''t1'' ''A''],
       receivables = [demoReceivable\<lparr>status := Unpaid\<rparr>]\<rparr> = demoStore"
  by (simp add: markReceivableAsPaid_def demoStore_def eval_defs)

lemma demoStore_eq: "foldl (\<lambda>s c. perform c s) emptyStore demoCalls = demoStore"
  unfolding demoCalls_def
  by (simp only: foldl.simps openedStore_def [symmetric] pairStore_def [symmetric]
      lentStore_eq paidStore_eq)

lemma openedStore_reachable: "reachable ok openedStore"
  unfolding openedStore_def
  by (rule reachable.step [OF reachable.start]) (simp add: occursIn_def emptyStore_def)

lemma pairStore_reachable: "reachable ok pairStore"
  unfolding pairStore_def
  by (rule reachable.step [OF openedStore_reachable], unfold openedStore_eq)
    (simp add: occursIn_def demoAccount_def demoOpening_def)

lemma demoStore_reachable: "reachable ok demoStore"
proof -
  have "reachable ok
      \<lparr>accounts = [(demoAccount ''A'')\<lparr>balance := ofInt 300\<rparr>, demoAccount ''B''], platforms = [],
       investments = [],
       transactions = [demoLoan, demoOpening ''t2'' ''B'', demoOpening ''t1'' ''A''],
       receivables = [demoReceivable\<lparr>status := Unpaid\<rparr>]\<rparr>"
    using pairStore_reachable by (rule reachable_to [OF _ _ lentStore_eq]) simp
  then show ?thesis
    by (rule reachable_to [OF _ _ paidStore_eq]) simp
qed

lemma openedStore_within: "reachableWithin openedStore"
proof (rule reachableWithin_to [OF reachableWithin.start _ openedStore_def [symmetric]])
  show "admissible manualEntry (AddAccount ''A'' ''t1'' 1 (demoAccount []) (ofInt 500)) emptyStore"
    by (simp add: occursIn_def emptyStore_def)
  show "withinRange openedStore"
    unfolding openedStore_eq by (simp add: range_defs demoOpening_def)
qed

lemma pairStore_within: "reachableWithin pairStore"
proof (rule reachableWithin_to [OF openedStore_within _ pairStore_def [symmetric]])
  show "admissible manualEntry (AddAccount ''B'' ''t2'' 1 (demoAccount []) (ofInt 500)) openedStore"
    unfolding openedStore_eq by (simp add: occursIn_def demoAccount_def demoOpening_def)
  show "withinRange pairStore"
    unfolding pairStore_eq by (simp add: range_defs demoOpening_def)
qed

lemma demoStore_within: "reachableWithin demoStore"
proof -
  have "reachableWithin
      \<lparr>accounts = [(demoAccount ''A'')\<lparr>balance := ofInt 300\<rparr>, demoAccount ''B''], platforms = [],
       investments = [],
       transactions = [demoLoan, demoOpening ''t2'' ''B'', demoOpening ''t1'' ''A''],
       receivables = [demoReceivable\<lparr>status := Unpaid\<rparr>]\<rparr>"
    using pairStore_within
    by (rule reachableWithin_to [OF _ _ lentStore_eq])
      (simp_all add: range_defs demoOpening_def demoLoan_def)
  then show ?thesis
    by (rule reachableWithin_to [OF _ _ paidStore_eq])
      (simp_all add: demoStore_def range_defs demoOpening_def demoLoan_def demoPayment_def)
qed

lemma cx_a:
  "perform (UpdateAccount ''t3'' 3 (demoAccount ''A'') (ofInt 500))
     (perform (AddTransaction ''t2'' expenseAsOpening) openedStore) =
   \<lparr>accounts = [(demoAccount ''A'')\<lparr>balance := ofInt 800\<rparr>], platforms = [], investments = [],
    transactions = [expenseAsOpening\<lparr>t_id := ''t2'', amount := ofInt 500\<rparr>, demoOpening ''t1'' ''A''],
    receivables = []\<rparr>"
  unfolding openedStore_eq by (simp add: eval_defs)

lemma cx_b:
  "perform (AddTransaction ''t2'' demoSelfTransfer) openedStore =
   \<lparr>accounts = [(demoAccount ''A'')\<lparr>balance := ofInt 400\<rparr>], platforms = [], investments = [],
    transactions = [demoSelfTransfer\<lparr>t_id := ''t2''\<rparr>, demoOpening ''t1'' ''A''],
    receivables = []\<rparr>"
  unfolding openedStore_eq by (simp add: eval_defs)

lemma cx_c:
  "perform (DeleteInvestment ''t4'' 6 ''i1'')
     (perform (AddTransaction ''t3'' incomeAsInvestment)
       (perform (AddInvestment ''i1'' ''t2'' demoInvestment) openedStore)) =
   \<lparr>accounts = [(demoAccount ''A'')\<lparr>balance := ofInt 550\<rparr>], platforms = [], investments = [],
    transactions = [demoOpening ''t1'' ''A''], receivables = []\<rparr>"
  unfolding openedStore_eq by (simp add: eval_defs)

lemma cx_d:
  "perform (AddTransaction ''t2'' incomeAsOpening) openedStore =
   \<lparr>accounts = [(demoAccount ''A'')\<lparr>balance := ofInt 600\<rparr>], platforms = [], investments = [],
    transactions = [incomeAsOpening\<lparr>t_id := ''t2''\<rparr>, demoOpening ''t1'' ''A''],
    receivables = []\<rparr>"
  unfolding openedStore_eq by (simp add: eval_defs)

lemma one_plus_big: "ofInt 1 + ofInt 9007199254740992 = ofInt 9007199254740992"
proof -
  have "valueOf (ofInt 1) = Some 1"
    using valueOf_ofInt [of 1] by simp
  moreover have "valueOf (ofInt 9007199254740992) = Some 9007199254740992"
    using valueOf_ofInt [of 9007199254740992] by simp
  ultimately have "ofInt 1 + ofInt 9007199254740992 = ofRat (1 + 9007199254740992)"
    by (rule plus_value)
  also have "\<dots> = ofRat 9007199254740992"
    by transfer (simp add: roundDouble_past_edge roundDouble_of_int [of 9007199254740992, simplified])
  finally show ?thesis by (simp add: ofInt_def)
qed

lemma big_plus_one: "ofInt 9007199254740992 + ofInt 1 = ofInt 9007199254740992"
proof -
  have "valueOf (ofInt 9007199254740992) = Some 9007199254740992"
    using valueOf_ofInt [of 9007199254740992] by simp
  moreover have "valueOf (ofInt 1) = Some 1"
    using valueOf_ofInt [of 1] by simp
  ultimately have "ofInt 9007199254740992 + ofInt 1 = ofRat (9007199254740992 + 1)"
    by (rule plus_value)
  also have "\<dots> = ofRat 9007199254740992"
    by transfer (simp add: roundDouble_past_edge roundDouble_of_int [of 9007199254740992, simplified])
  finally show ?thesis by (simp add: ofInt_def)
qed

lemma cx_e:
  "perform (AddTransaction ''t3'' unitIncome) (perform (AddTransaction ''t2'' bigIncome) unitStore) =
   \<lparr>accounts = [(demoAccount ''A'')\<lparr>balance := ofInt 9007199254740992\<rparr>], platforms = [],
    investments = [],
    transactions = [unitIncome\<lparr>t_id := ''t3''\<rparr>, bigIncome\<lparr>t_id := ''t2''\<rparr>,
      (demoOpening ''t1'' ''A'')\<lparr>amount := ofInt 1\<rparr>],
    receivables = []\<rparr>"
  unfolding unitStore_eq
  by (simp add: addTransaction_def setAccounts_def setTransactions_def demoAccount_def
      demoOpening_def sortByDate_def applyTransaction_def creditLeg_def unitIncome_def
      bigIncome_def one_plus_big big_plus_one)

lemma unitStore_reachable: "reachable ok unitStore"
  unfolding unitStore_def
  by (rule reachable.step [OF reachable.start]) (simp add: occursIn_def emptyStore_def)

lemma cx_f:
  "perform (AddTransaction ''t3'' transferAsOpening) pairStore =
   \<lparr>accounts = [(demoAccount ''A'')\<lparr>balance := ofInt 600\<rparr>, (demoAccount ''B'')\<lparr>balance := ofInt 400\<rparr>],
    platforms = [], investments = [],
    transactions = [transferAsOpening\<lparr>t_id := ''t3''\<rparr>, demoOpening ''t2'' ''B'',
      demoOpening ''t1'' ''A''],
    receivables = []\<rparr>"
  unfolding pairStore_eq by (simp add: eval_defs)

lemma cx_g:
  "perform (AddTransaction ''t2'' expenseAsOpening) openedStore =
   \<lparr>accounts = [(demoAccount ''A'')\<lparr>balance := ofInt 400\<rparr>], platforms = [], investments = [],
    transactions = [expenseAsOpening\<lparr>t_id := ''t2''\<rparr>, demoOpening ''t1'' ''A''],
    receivables = []\<rparr>"
  unfolding openedStore_eq by (simp add: eval_defs)

lemma demoTransfer_applied:
  "perform (AddTransaction ''t5'' demoTransfer) demoStore =
   demoStore\<lparr>accounts := [(demoAccount ''A'')\<lparr>balance := ofInt 400\<rparr>, (demoAccount ''B'')\<lparr>balance := ofInt 600\<rparr>],
     transactions := demoTransfer\<lparr>t_id := ''t5''\<rparr> # transactions demoStore\<rparr>"
  by (simp add: demoStore_def eval_defs)

section \<open>Deleting an account\<close>

text \<open>
  Claim C5, amended. \<open>deleteAccount\<close> is rejected, with the store unchanged, whenever a
  transaction whose category is not the opening-balance category names the account as
  \<open>accountId\<close> or \<open>toAccountId\<close>, or an investment names it as its funding account.
  Otherwise it removes the account and the opening-balance transactions of the account,
  and nothing else: platforms, investments and receivables stay as they were.
\<close>

theorem deleteAccount_guard:
  "((\<exists>t\<in>set (transactions s).
        (accountId t = aid \<or> toAccountId t = Some aid) \<and> category t \<noteq> saldoAwal)
      \<or> (\<exists>i\<in>set (investments s). i_accountId i = aid)
     \<longrightarrow> deleteAccount aid s = (Some AccountInUse, s)) \<and>
   (\<not> ((\<exists>t\<in>set (transactions s).
        (accountId t = aid \<or> toAccountId t = Some aid) \<and> category t \<noteq> saldoAwal)
      \<or> (\<exists>i\<in>set (investments s). i_accountId i = aid))
     \<longrightarrow> deleteAccount aid s =
        (None, s\<lparr>accounts := filter (\<lambda>acc. a_id acc \<noteq> aid) (accounts s),
                  transactions :=
                    filter (\<lambda>t. \<not> (accountId t = aid \<and> category t = saldoAwal))
                      (transactions s)\<rparr>))"
  by (auto simp: deleteAccount_def isAccountInUse_def list_ex_iff setAccounts_def
      setTransactions_def)

theorem deleteAccount_guard_witness:
  "(\<exists>t\<in>set (transactions demoStore).
      (accountId t = ''A'' \<or> toAccountId t = Some ''A'') \<and> category t \<noteq> saldoAwal) \<and>
   deleteAccount ''A'' demoStore = (Some AccountInUse, demoStore) \<and>
   \<not> ((\<exists>t\<in>set (transactions demoStore).
        (accountId t = ''B'' \<or> toAccountId t = Some ''B'') \<and> category t \<noteq> saldoAwal)
      \<or> (\<exists>i\<in>set (investments demoStore). i_accountId i = ''B'')) \<and>
   deleteAccount ''B'' demoStore =
     (None, demoStore\<lparr>accounts := [demoAccount ''A''],
        transactions := [demoPayment, demoLoan, demoOpening ''t1'' ''A'']\<rparr>)"
  using deleteAccount_guard [of demoStore "''A''"] deleteAccount_guard [of demoStore "''B''"]
  by (simp add: demoStore_def demoPayment_def demoLoan_def demoOpening_def demoAccount_def
      saldoAwal_def)

text \<open>
  Claim C5 as stated rejects the deletion whenever a transaction other than the
  opening-balance entry of the account refers to the account. The code tests the
  category alone. With accounts A and B, each opened with 500, a transfer of 100 from B
  to A entered under the category Saldo Awal refers to A and is not the opening-balance
  entry of A, yet \<open>deleteAccount\<close> of A is not rejected: A is removed and the transfer
  stays in the log, naming an account that no longer exists. And with the account A
  alone, an Expense of 100 on A entered under the category Saldo Awal is removed from
  the log together with the account and its opening balance.
\<close>

theorem deleteAccount_labelled_entry_counterexample:
  "inUseBySpec ''A'' (perform (AddTransaction ''t3'' transferAsOpening) pairStore) \<and>
   deleteAccount ''A'' (perform (AddTransaction ''t3'' transferAsOpening) pairStore) =
     (None,
      \<lparr>accounts = [(demoAccount ''B'')\<lparr>balance := ofInt 400\<rparr>], platforms = [],
       investments = [],
       transactions = [transferAsOpening\<lparr>t_id := ''t3''\<rparr>, demoOpening ''t2'' ''B''],
       receivables = []\<rparr>) \<and>
   toAccountId (transferAsOpening\<lparr>t_id := ''t3''\<rparr>) = Some ''A'' \<and>
   transactions (perform (AddTransaction ''t2'' expenseAsOpening) openedStore) =
     [expenseAsOpening\<lparr>t_id := ''t2''\<rparr>, demoOpening ''t1'' ''A''] \<and>
   ttype expenseAsOpening = Expense \<and> accountId expenseAsOpening = ''A'' \<and>
   deleteAccount ''A'' (perform (AddTransaction ''t2'' expenseAsOpening) openedStore) =
     (None, emptyStore)"
  unfolding cx_f cx_g
  by (simp add: inUseBySpec_def deleteAccount_def isAccountInUse_def isInitialTx_def
      setAccounts_def setTransactions_def transferAsOpening_def expenseAsOpening_def
      demoOpening_def demoAccount_def saldoAwal_def emptyStore_def)

section \<open>At most one opening-balance transaction per account\<close>

text \<open>
  Claim C9, amended. In every store reachable from the empty store by calls in which no
  caller passes a transaction of category Saldo Awal to \<open>addTransaction\<close>, and in which
  the identifier of a new account does not occur in the store, no two opening-balance
  transactions name the same account.
\<close>

theorem opening_balance_unique: "reachable notOpening s \<Longrightarrow> openingUnique s"
  unfolding openingUnique_def by (rule reachable_uniqueOpenings [of notOpening])

theorem opening_balance_unique_witness:
  "reachable notOpening (perform (AddTransaction ''t5'' demoTransfer) demoStore) \<and>
   openingUnique (perform (AddTransaction ''t5'' demoTransfer) demoStore)"
proof -
  have "admissible notOpening (AddTransaction ''t5'' demoTransfer) demoStore"
    by (simp add: notOpening_def demoTransfer_def saldoAwal_def)
  with demoStore_reachable
  have r: "reachable notOpening (perform (AddTransaction ''t5'' demoTransfer) demoStore)"
    by (rule reachable.step)
  from r opening_balance_unique [OF r] show ?thesis ..
qed

text \<open>
  Claim C9 as stated lets \<open>addTransaction\<close> take any category. \<open>addTransaction\<close> does
  not look at the category, so after opening account A with 500 a caller's Income of
  category Saldo Awal on A leaves two opening-balance transactions of A in the log.
\<close>

theorem second_opening_counterexample:
  "reachable anyEntry (perform (AddTransaction ''t2'' incomeAsOpening) openedStore) \<and>
   filter (isInitialTx ''A'')
     (transactions (perform (AddTransaction ''t2'' incomeAsOpening) openedStore)) =
     [incomeAsOpening\<lparr>t_id := ''t2''\<rparr>, demoOpening ''t1'' ''A''] \<and>
   \<not> openingUnique (perform (AddTransaction ''t2'' incomeAsOpening) openedStore)"
proof -
  have "admissible anyEntry (AddTransaction ''t2'' incomeAsOpening) openedStore"
    by (simp add: anyEntry_def)
  with openedStore_reachable
  have "reachable anyEntry (perform (AddTransaction ''t2'' incomeAsOpening) openedStore)"
    by (rule reachable.step)
  then show ?thesis
    unfolding cx_d
    by (simp add: openingUnique_def uniqueOpenings_def isOpening_def isInitialTx_def
        incomeAsOpening_def demoOpening_def saldoAwal_def)
qed

section \<open>Balances equal the signed sum of the log\<close>

text \<open>
  Claim C1, amended. In every store reachable from the empty store by calls of the
  operations in which the identifier of a new account or investment does not occur in
  the store, every transaction that a caller passes to \<open>addTransaction\<close> has a category
  other than Saldo Awal, is not a transfer from an account to itself and does not carry
  the source \<open>Investment\<close> together with a \<open>linkedInvestmentId\<close>, and after every call
  the amounts of the log are whole numbers whose absolute values add up to less than
  \<open>2 ^ 52\<close>, the balance of every account is finite and equals the signed sum of the
  transactions of the log that refer to it.
\<close>

theorem ledger_balances_consistent: "reachableWithin s \<Longrightarrow> balancesConsistent s"
proof -
  assume "reachableWithin s"
  then have "ledgerInv s" by (rule reachableWithin_ledgerInv)
  then show "balancesConsistent s"
    by (simp add: ledgerInv_def balancesConsistent_def)
qed

theorem ledger_balances_consistent_witness:
  "manualEntry demoTransfer \<and>
   withinRange (perform (AddTransaction ''t5'' demoTransfer) demoStore) \<and>
   reachableWithin (perform (AddTransaction ''t5'' demoTransfer) demoStore) \<and>
   balancesConsistent (perform (AddTransaction ''t5'' demoTransfer) demoStore)"
proof -
  have m: "manualEntry demoTransfer"
    by (simp add: manualEntry_def demoTransfer_def saldoAwal_def)
  then have a: "admissible manualEntry (AddTransaction ''t5'' demoTransfer) demoStore"
    by simp
  have w: "withinRange (perform (AddTransaction ''t5'' demoTransfer) demoStore)"
    unfolding demoTransfer_applied
    by (simp add: demoStore_def range_defs demoOpening_def demoLoan_def demoPayment_def
        demoTransfer_def)
  from demoStore_within a w
  have r: "reachableWithin (perform (AddTransaction ''t5'' demoTransfer) demoStore)"
    by (rule reachableWithin.step)
  from m w r ledger_balances_consistent [OF r] show ?thesis by simp
qed

text \<open>
  Claim C1 as stated lets \<open>addTransaction\<close> take any transaction of any amount. Four
  sequences from the empty store end with a balance of account A that differs from the
  signed sum of the log. An Expense entered under the category Saldo Awal is taken by
  \<open>updateAccount\<close> for the opening balance: balance 800, signed sum 0. A transfer from
  A to A is debited and not credited: balance 400, signed sum 500. An Income that
  carries the source and the link of an investment is removed from the log by
  \<open>deleteInvestment\<close> while its amount stays in the balance: balance 550, signed sum 500.
  And on the account A opened with 1, an ordinary Income of \<open>2 ^ 53\<close> followed by an
  ordinary Income of 1 leaves the balance at \<open>2 ^ 53\<close>, each addition being rounded to
  the nearest number, while the signed sum is \<open>2 ^ 53 + 2\<close>.
\<close>

theorem unrestricted_entries_counterexample:
  "reachable anyEntry
     (perform (UpdateAccount ''t3'' 3 (demoAccount ''A'') (ofInt 500))
       (perform (AddTransaction ''t2'' expenseAsOpening) openedStore)) \<and>
   map (\<lambda>a. valueOf (balance a)) (accounts
     (perform (UpdateAccount ''t3'' 3 (demoAccount ''A'') (ofInt 500))
       (perform (AddTransaction ''t2'' expenseAsOpening) openedStore))) = [Some 800] \<and>
   signedSum (transactions
     (perform (UpdateAccount ''t3'' 3 (demoAccount ''A'') (ofInt 500))
       (perform (AddTransaction ''t2'' expenseAsOpening) openedStore))) ''A'' = 0 \<and>
   \<not> balancesConsistent
     (perform (UpdateAccount ''t3'' 3 (demoAccount ''A'') (ofInt 500))
       (perform (AddTransaction ''t2'' expenseAsOpening) openedStore)) \<and>
   reachable anyEntry (perform (AddTransaction ''t2'' demoSelfTransfer) openedStore) \<and>
   map (\<lambda>a. valueOf (balance a))
     (accounts (perform (AddTransaction ''t2'' demoSelfTransfer) openedStore)) = [Some 400] \<and>
   signedSum (transactions (perform (AddTransaction ''t2'' demoSelfTransfer) openedStore))
     ''A'' = 500 \<and>
   \<not> balancesConsistent (perform (AddTransaction ''t2'' demoSelfTransfer) openedStore) \<and>
   reachable anyEntry
     (perform (DeleteInvestment ''t4'' 6 ''i1'')
       (perform (AddTransaction ''t3'' incomeAsInvestment)
         (perform (AddInvestment ''i1'' ''t2'' demoInvestment) openedStore))) \<and>
   map (\<lambda>a. valueOf (balance a)) (accounts
     (perform (DeleteInvestment ''t4'' 6 ''i1'')
       (perform (AddTransaction ''t3'' incomeAsInvestment)
         (perform (AddInvestment ''i1'' ''t2'' demoInvestment) openedStore)))) = [Some 550] \<and>
   signedSum (transactions
     (perform (DeleteInvestment ''t4'' 6 ''i1'')
       (perform (AddTransaction ''t3'' incomeAsInvestment)
         (perform (AddInvestment ''i1'' ''t2'' demoInvestment) openedStore)))) ''A'' = 500 \<and>
   \<not> balancesConsistent
     (perform (DeleteInvestment ''t4'' 6 ''i1'')
       (perform (AddTransaction ''t3'' incomeAsInvestment)
         (perform (AddInvestment ''i1'' ''t2'' demoInvestment) openedStore))) \<and>
   manualEntry bigIncome \<and> manualEntry unitIncome \<and>
   reachable manualEntry
     (perform (AddTransaction ''t3'' unitIncome)
       (perform (AddTransaction ''t2'' bigIncome) unitStore)) \<and>
   map (\<lambda>a. valueOf (balance a)) (accounts
     (perform (AddTransaction ''t3'' unitIncome)
       (perform (AddTransaction ''t2'' bigIncome) unitStore))) = [Some 9007199254740992] \<and>
   signedSum (transactions
     (perform (AddTransaction ''t3'' unitIncome)
       (perform (AddTransaction ''t2'' bigIncome) unitStore))) ''A'' = 9007199254740994 \<and>
   \<not> balancesConsistent
     (perform (AddTransaction ''t3'' unitIncome)
       (perform (AddTransaction ''t2'' bigIncome) unitStore))"
proof -
  have any: "admissible anyEntry (AddTransaction nid tx) s" for nid tx s
    by (simp add: anyEntry_def)
  have ra: "reachable anyEntry
     (perform (UpdateAccount ''t3'' 3 (demoAccount ''A'') (ofInt 500))
       (perform (AddTransaction ''t2'' expenseAsOpening) openedStore))"
    by (rule reachable.step [OF reachable.step [OF openedStore_reachable any]]) simp
  have rb: "reachable anyEntry (perform (AddTransaction ''t2'' demoSelfTransfer) openedStore)"
    by (rule reachable.step [OF openedStore_reachable any])
  have "admissible anyEntry (AddInvestment ''i1'' ''t2'' demoInvestment) openedStore"
    unfolding openedStore_eq by (simp add: occursIn_def demoAccount_def demoOpening_def)
  from reachable.step [OF openedStore_reachable this]
  have "reachable anyEntry (perform (AddInvestment ''i1'' ''t2'' demoInvestment) openedStore)" .
  from reachable.step [OF this any]
  have "reachable anyEntry
     (perform (AddTransaction ''t3'' incomeAsInvestment)
       (perform (AddInvestment ''i1'' ''t2'' demoInvestment) openedStore))" .
  then have rc: "reachable anyEntry
     (perform (DeleteInvestment ''t4'' 6 ''i1'')
       (perform (AddTransaction ''t3'' incomeAsInvestment)
         (perform (AddInvestment ''i1'' ''t2'' demoInvestment) openedStore)))"
    by (rule reachable.step) simp
  have m1: "manualEntry bigIncome" and m2: "manualEntry unitIncome"
    by (simp_all add: manualEntry_def bigIncome_def unitIncome_def saldoAwal_def)
  have "reachable manualEntry (perform (AddTransaction ''t2'' bigIncome) unitStore)"
    using unitStore_reachable by (rule reachable.step) (simp add: m1)
  then have re: "reachable manualEntry
     (perform (AddTransaction ''t3'' unitIncome)
       (perform (AddTransaction ''t2'' bigIncome) unitStore))"
    by (rule reachable.step) (simp add: m2)
  have va: "signedSum [expenseAsOpening\<lparr>t_id := ''t2'', amount := ofInt 500\<rparr>,
      demoOpening ''t1'' ''A''] ''A'' = 0"
    by (simp add: signedSum_def effect_def expenseAsOpening_def demoOpening_def ratOf_ofInt)
  have vb: "signedSum [demoSelfTransfer\<lparr>t_id := ''t2''\<rparr>, demoOpening ''t1'' ''A''] ''A'' = 500"
    by (simp add: signedSum_def effect_def demoSelfTransfer_def demoOpening_def ratOf_ofInt)
  have vc: "signedSum [demoOpening ''t1'' ''A''] ''A'' = 500"
    by (simp add: signedSum_def effect_def demoOpening_def ratOf_ofInt)
  have ve: "signedSum [unitIncome\<lparr>t_id := ''t3''\<rparr>, bigIncome\<lparr>t_id := ''t2''\<rparr>,
      (demoOpening ''t1'' ''A'')\<lparr>amount := ofInt 1\<rparr>] ''A'' = 9007199254740994"
    by (simp add: signedSum_def effect_def unitIncome_def bigIncome_def demoOpening_def
        ratOf_ofInt)
  have b1: "valueOf (ofInt 800) = Some 800" and b2: "valueOf (ofInt 400) = Some 400"
    and b3: "valueOf (ofInt 550) = Some 550"
    and b4: "valueOf (ofInt 9007199254740992) = Some 9007199254740992"
    using valueOf_ofInt [of 800] valueOf_ofInt [of 400] valueOf_ofInt [of 550]
      valueOf_ofInt [of 9007199254740992]
    by simp_all
  show ?thesis
    using ra rb rc re m1 m2 unfolding cx_a cx_b cx_c cx_e
    by (simp add: balancesConsistent_def consistent_def va vb vc ve b1 b2 b3 b4 demoAccount_def)
qed

end
